theory Spec2Isabelle
  imports Main "HOL-Library.Multiset"
begin

section \<open>Data model of the route optimizer\<close>

text \<open>
  Amounts are \<^verbatim>\<open>u64\<close> values backed by BN.js: non-negative integers whose \<^verbatim>\<open>mul\<close> and
  \<^verbatim>\<open>div\<close> do not wrap, hence \<^typ>\<open>nat\<close>. Mints, vaults and pool addresses are compared
  through their base58 text, hence \<^typ>\<open>string\<close>. Percentages and the routing options are
  non-negative whole numbers.
\<close>

type_synonym u64 = nat
type_synonym Address = string
type_synonym Route = "string list"

text \<open>
  The members of \<^verbatim>\<open>SwapErrorCode\<close> that the router names, and a member for every other
  code. A caught exception that has no \<^verbatim>\<open>errorCode\<close> field yields \<^verbatim>\<open>undefined\<close>, which is
  \<open>None\<close> of \<open>SwapErrorCode option\<close> below.
\<close>

datatype SwapErrorCode =
  TickArraySequenceInvalid | TickArrayCrossingAboveMax | OtherSwapError string

datatype RouteQueryError =
  ROUTE_DOES_NOT_EXIST | ZERO_INPUT_AMOUNT | TRADE_AMOUNT_TOO_HIGH | GENERAL

text \<open>Faults raised by the runtime or by a collaborator (not by the quote engine).\<close>

datatype fault = TypeError | RangeError | ExternalFault

record TokenPairPool =
  address :: Address
  tokenMintA :: Address
  tokenMintB :: Address

record WhirlpoolData =
  tokenMintA :: Address
  tokenMintB :: Address
  tokenVaultA :: Address
  tokenVaultB :: Address

record SwapQuoteParam =
  whirlpoolData :: WhirlpoolData
  tokenAmount :: u64
  aToB :: bool
  amountSpecifiedIsInput :: bool

record SwapQuote =
  otherAmountThreshold :: u64

record QuoteRequest =
  whirlpool :: Address
  tradeTokenMint :: Address
  tokenAmount :: u64
  amountSpecifiedIsInput :: bool

record QuoteUpdate =
  percent :: nat
  routeIndex :: nat
  hopIndex :: nat
  quoteIndex :: nat
  address :: Address
  request :: QuoteRequest

text \<open>A successful hop, the object written with \<^verbatim>\<open>success: true\<close>.\<close>

record Hop =
  percent :: nat
  amountIn :: u64
  amountOut :: u64
  whirlpool :: Address
  inputMint :: Address
  outputMint :: Address
  mintA :: Address
  mintB :: Address
  vaultA :: Address
  vaultB :: Address
  quote :: SwapQuote

datatype HopResult = Success Hop | Failure "SwapErrorCode option"

text \<open>
  An entry of the quote map while the hops are computed. \<^verbatim>\<open>calculatedHops\<close> is created
  by \<^verbatim>\<open>Array(route.length)\<close>: a slot that was never written is \<open>None\<close>.
\<close>

record InternalRouteQuote =
  route :: Route
  percent :: nat
  calculatedHops :: "HopResult option list"

record RouteQuote =
  percent :: nat
  route :: Route
  amountIn :: u64
  amountOut :: u64
  calculatedHops :: "HopResult list"

text \<open>An element of \<^verbatim>\<open>bestRoutes\<close>.\<close>

record TradeRoute =
  quotes :: "RouteQuote list"
  percent :: nat
  totalIn :: u64
  totalOut :: u64

record RoutingOptions =
  percentIncrement :: nat
  numTopRoutes :: nat
  numTopPartialQuotes :: nat
  maxSplits :: nat

record PartialRoutingOptions =
  percentIncrement :: "nat option"
  numTopRoutes :: "nat option"
  numTopPartialQuotes :: "nat option"
  maxSplits :: "nat option"

definition DEFAULT_ROUTING_OPTIONS :: RoutingOptions where
  "DEFAULT_ROUTING_OPTIONS =
     \<lparr> RoutingOptions.percentIncrement = 20, RoutingOptions.numTopRoutes = 50,
       RoutingOptions.numTopPartialQuotes = 10, RoutingOptions.maxSplits = 3 \<rparr>"

text \<open>
  The spread \<^verbatim>\<open>{ ...DEFAULT_ROUTING_OPTIONS, ...userRoutingOptions }\<close>. An option is
  either given (\<open>Some\<close>) or absent; an own property whose value is \<^verbatim>\<open>undefined\<close>, which
  the spread would copy over the default, is not represented.
\<close>

definition mergeOptions :: "PartialRoutingOptions \<Rightarrow> RoutingOptions" where
  "mergeOptions u =
     \<lparr> RoutingOptions.percentIncrement =
         (case PartialRoutingOptions.percentIncrement u of
            None \<Rightarrow> RoutingOptions.percentIncrement DEFAULT_ROUTING_OPTIONS | Some v \<Rightarrow> v),
       RoutingOptions.numTopRoutes =
         (case PartialRoutingOptions.numTopRoutes u of
            None \<Rightarrow> RoutingOptions.numTopRoutes DEFAULT_ROUTING_OPTIONS | Some v \<Rightarrow> v),
       RoutingOptions.numTopPartialQuotes =
         (case PartialRoutingOptions.numTopPartialQuotes u of
            None \<Rightarrow> RoutingOptions.numTopPartialQuotes DEFAULT_ROUTING_OPTIONS | Some v \<Rightarrow> v),
       RoutingOptions.maxSplits =
         (case PartialRoutingOptions.maxSplits u of
            None \<Rightarrow> RoutingOptions.maxSplits DEFAULT_ROUTING_OPTIONS | Some v \<Rightarrow> v) \<rparr>"

text \<open>
  The result of the asynchronous entry point: the promise resolves with a
  \<^verbatim>\<open>BestRoutesResult\<close>, or it is rejected, with the object handed to
  \<^verbatim>\<open>Promise.reject\<close> or with a fault thrown outside the \<^verbatim>\<open>try\<close> block.
\<close>

datatype BestRoutesResult =
  SuccessResult "TradeRoute list" | FailureResult RouteQueryError

datatype rejection = RejectedWith BestRoutesResult | Thrown fault

datatype promise = Resolved BestRoutesResult | Rejected rejection

section \<open>JavaScript containers\<close>

text \<open>
  An object keyed by percentages (\<^verbatim>\<open>Record<number, ...>\<close>) is an association list kept in
  ascending key order, the order in which \<^verbatim>\<open>Object.keys\<close> lists integer keys.
  \<open>setKey\<close> is the assignment \<^verbatim>\<open>obj[k] = v\<close>, \<open>map_of\<close> the read \<^verbatim>\<open>obj[k]\<close>.
\<close>

fun setKey :: "nat \<Rightarrow> 'v \<Rightarrow> (nat \<times> 'v) list \<Rightarrow> (nat \<times> 'v) list" where
  "setKey k v [] = [(k, v)]"
| "setKey k v ((k', v') # rest) =
     (if k < k' then (k, v) # (k', v') # rest
      else if k = k' then (k, v) # rest
      else (k', v') # setKey k v rest)"

text \<open>
  Arrays with holes: \<open>jsGet\<close> reads a slot (\<^verbatim>\<open>undefined\<close> for a hole or out of range),
  \<open>jsSet\<close> writes one, extending the array when the index is beyond its length.
\<close>

definition jsGet :: "'a option list \<Rightarrow> nat \<Rightarrow> 'a option" where
  "jsGet xs i = (if i < length xs then xs ! i else None)"

definition jsSet :: "'a option list \<Rightarrow> nat \<Rightarrow> 'a \<Rightarrow> 'a option list" where
  "jsSet xs i v =
     (if i < length xs then xs[i := Some v]
      else xs @ replicate (i - length xs) None @ [Some v])"

definition nthOpt :: "'a list \<Rightarrow> nat \<Rightarrow> 'a option" where
  "nthOpt xs i = (if i < length xs then Some (xs ! i) else None)"

text \<open>
  \<^verbatim>\<open>Array.prototype.sort\<close> with a comparator is a stable sort (ECMAScript 2019): an
  insertion sort that places an element before the first later element that does not
  compare smaller.
\<close>

fun insortCmp :: "('a \<Rightarrow> 'a \<Rightarrow> int) \<Rightarrow> 'a \<Rightarrow> 'a list \<Rightarrow> 'a list" where
  "insortCmp c x [] = [x]"
| "insortCmp c x (y # ys) = (if c x y \<le> 0 then x # y # ys else y # insortCmp c x ys)"

definition jsSort :: "('a \<Rightarrow> 'a \<Rightarrow> int) \<Rightarrow> 'a list \<Rightarrow> 'a list" where
  "jsSort c xs = foldr (insortCmp c) xs []"

text \<open>\<^verbatim>\<open>BN.cmp\<close>.\<close>

definition cmp :: "u64 \<Rightarrow> u64 \<Rightarrow> int" where
  "cmp a b = (if a < b then - 1 else if a = b then 0 else 1)"

text \<open>A loop body that may throw, run over a list: the first fault ends the loop.\<close>

fun forEach :: "('a \<Rightarrow> 's \<Rightarrow> fault + 's) \<Rightarrow> 'a list \<Rightarrow> 's \<Rightarrow> fault + 's" where
  "forEach body [] s = Inr s"
| "forEach body (x # xs) s =
     (case body x s of Inl e \<Rightarrow> Inl e | Inr s' \<Rightarrow> forEach body xs s')"

section \<open>Percentage slicer\<close>

text \<open>
  \<^verbatim>\<open>for (let i = 1; i <= 100 / minPercent; i++)\<close>: the guard divides as a JavaScript
  number, so a zero \<^verbatim>\<open>minPercent\<close> gives \<^verbatim>\<open>Infinity\<close> and the loop never ends; otherwise
  \<^verbatim>\<open>i <= 100 / minPercent\<close> is \<open>i * minPercent \<le> 100\<close>.
\<close>

partial_function (option) slicerLoop ::
  "u64 \<Rightarrow> nat \<Rightarrow> nat \<Rightarrow> nat list \<times> u64 list \<Rightarrow> (nat list \<times> u64 list) option" where
  "slicerLoop inputAmount minPercent i acc =
     (if minPercent = 0 \<or> i * minPercent \<le> 100
      then slicerLoop inputAmount minPercent (i + 1)
             (fst acc @ [i * minPercent],
              snd acc @ [inputAmount * (i * minPercent) div 100])
      else Some acc)"

definition generatePercentageAmounts :: "u64 \<Rightarrow> nat \<Rightarrow> (nat list \<times> u64 list) option" where
  "generatePercentageAmounts inputAmount minPercent = slicerLoop inputAmount minPercent 1 ([], [])"

section \<open>Quote batch builder\<close>

type_synonym QuoteBucket = "InternalRouteQuote option list"
type_synonym QuoteMap = "(nat \<times> QuoteBucket) list"

text \<open>
  The guard \<^verbatim>\<open>amountSpecifiedIsInput ? route.length <= hop : hop > route.length - 1\<close>
  and the test \<^verbatim>\<open>amountSpecifiedIsInput ? hop === 0 : hop === route.length - 1\<close>;
  \<^verbatim>\<open>route.length - 1\<close> is \<open>-1\<close> for an empty route, so the subtraction is on \<^typ>\<open>int\<close>.
\<close>

definition routeSkipped :: "bool \<Rightarrow> nat \<Rightarrow> Route \<Rightarrow> bool" where
  "routeSkipped amountIsInput hop r =
     (if amountIsInput then length r \<le> hop else int hop > int (length r) - 1)"

definition startingRouteEval :: "bool \<Rightarrow> nat \<Rightarrow> Route \<Rightarrow> bool" where
  "startingRouteEval amountIsInput hop r =
     (if amountIsInput then hop = 0 else int hop = int (length r) - 1)"

text \<open>
  \<^verbatim>\<open>currentQuote.calculatedHops[hop - 1]\<close> or \<^verbatim>\<open>[hop + 1]\<close>; index \<open>-1\<close> reads
  \<^verbatim>\<open>undefined\<close>.
\<close>

definition lastHopOf :: "bool \<Rightarrow> nat \<Rightarrow> HopResult option list \<Rightarrow> HopResult option" where
  "lastHopOf amountIsInput hop hops =
     (if amountIsInput then (if hop = 0 then None else jsGet hops (hop - 1))
      else jsGet hops (hop + 1))"

text \<open>
  The body of the loop over \<^verbatim>\<open>routeIndex\<close>, on the request list and on the array
  \<^verbatim>\<open>quoteMap[percent]\<close>, which is the only part of the quote map the body touches.
  Reading a field of \<^verbatim>\<open>undefined\<close> (a pool that is not in \<^verbatim>\<open>pools\<close>, an entry that was
  never initialised) throws a TypeError, in the order of the source lines. Addresses
  are taken to be well-formed public keys and are compared as their text, so
  \<^verbatim>\<open>AddressUtil.toPubKey\<close> does not throw here.
\<close>

definition routeBody ::
  "Address \<Rightarrow> Address \<Rightarrow> (string \<rightharpoonup> TokenPairPool) \<Rightarrow> nat \<Rightarrow> bool \<Rightarrow> nat \<Rightarrow> u64 \<Rightarrow>
   nat \<times> Route \<Rightarrow> QuoteUpdate list \<times> QuoteBucket \<Rightarrow> fault + QuoteUpdate list \<times> QuoteBucket" where
  "routeBody inputTokenMint outputTokenMint pools hop amountIsInput pct tradeAmount ir st =
     (let routeIndex = fst ir; r = snd ir; quoteUpdates = fst st; bucket = snd st in
      if routeSkipped amountIsInput hop r then Inr st
      else
        let starting = startingRouteEval amountIsInput hop r;
            bucket1 = (if starting
                       then jsSet bucket routeIndex
                              \<lparr> InternalRouteQuote.route = r, InternalRouteQuote.percent = pct,
                                InternalRouteQuote.calculatedHops = replicate (length r) None \<rparr>
                       else bucket)
        in case pools (r ! 0) of
             None \<Rightarrow> Inl TypeError
           | Some initialPool \<Rightarrow>
               let orderedRoute =
                     (if TokenPairPool.tokenMintA initialPool \<noteq> inputTokenMint \<and>
                         TokenPairPool.tokenMintB initialPool \<noteq> inputTokenMint
                      then rev r else r)
               in case jsGet bucket1 routeIndex of
                    None \<Rightarrow> Inl TypeError
                  | Some currentQuote \<Rightarrow>
                      let lastHop = lastHopOf amountIsInput hop
                                      (InternalRouteQuote.calculatedHops currentQuote);
                          push = (\<lambda>tokenAmount tradeToken.
                            case pools (orderedRoute ! hop) of
                              None \<Rightarrow> Inl TypeError
                            | Some pool \<Rightarrow>
                                Inr (quoteUpdates @
                                     [\<lparr> QuoteUpdate.percent = pct, routeIndex = routeIndex,
                                        hopIndex = hop, quoteIndex = length quoteUpdates,
                                        address = TokenPairPool.address pool,
                                        request =
                                          \<lparr> QuoteRequest.whirlpool = TokenPairPool.address pool,
                                            tradeTokenMint = tradeToken,
                                            QuoteRequest.tokenAmount = tokenAmount,
                                            QuoteRequest.amountSpecifiedIsInput =
                                              amountIsInput \<rparr> \<rparr>],
                                     bucket1))
                      in if starting
                         then push tradeAmount
                                (if amountIsInput then inputTokenMint else outputTokenMint)
                         else (case lastHop of
                                 Some (Success h) \<Rightarrow>
                                   push (if amountIsInput then Hop.amountOut h
                                         else Hop.amountIn h)
                                        (if amountIsInput then Hop.outputMint h
                                         else Hop.inputMint h)
                               | _ \<Rightarrow> Inr (quoteUpdates, bucket1)))"

text \<open>
  The body of the loop over \<^verbatim>\<open>amountIndex\<close>. \<^verbatim>\<open>percents\<close> and \<^verbatim>\<open>amounts\<close> are the parallel
  arrays of the slicer and are walked together.
\<close>

definition amountBody ::
  "Address \<Rightarrow> Address \<Rightarrow> (string \<rightharpoonup> TokenPairPool) \<Rightarrow> Route list \<Rightarrow> nat \<Rightarrow> bool \<Rightarrow>
   nat \<times> u64 \<Rightarrow> QuoteUpdate list \<times> QuoteMap \<Rightarrow> fault + QuoteUpdate list \<times> QuoteMap" where
  "amountBody inputTokenMint outputTokenMint pools pairRoutes hop amountIsInput pa st =
     (let pct = fst pa; tradeAmount = snd pa; quoteUpdates = fst st; quoteMap = snd st;
          bucket = (case map_of quoteMap pct of
                      None \<Rightarrow> replicate (length pairRoutes) None
                    | Some b \<Rightarrow> b)
      in case forEach (routeBody inputTokenMint outputTokenMint pools hop amountIsInput
                         pct tradeAmount)
                (enumerate 0 pairRoutes) (quoteUpdates, bucket) of
           Inl e \<Rightarrow> Inl e
         | Inr (quoteUpdates', bucket') \<Rightarrow> Inr (quoteUpdates', setKey pct bucket' quoteMap))"

definition buildQuoteUpdateRequests ::
  "Address \<Rightarrow> Address \<Rightarrow> (string \<rightharpoonup> TokenPairPool) \<Rightarrow> Route list \<Rightarrow> nat list \<Rightarrow> u64 list \<Rightarrow>
   nat \<Rightarrow> bool \<Rightarrow> QuoteMap \<Rightarrow> fault + QuoteUpdate list \<times> QuoteMap" where
  "buildQuoteUpdateRequests inputTokenMint outputTokenMint pools pairRoutes percents amounts hop
       amountIsInput quoteMap =
     forEach (amountBody inputTokenMint outputTokenMint pools pairRoutes hop amountIsInput)
       (zip percents amounts) ([], quoteMap)"

section \<open>Hop quote executor\<close>

text \<open>
  \<open>swapQuoteWithParams\<close> is the quote engine, called with zero slippage: \<open>Inr\<close> the quote,
  \<open>Inl\<close> the \<^verbatim>\<open>errorCode\<close> of the exception it threw. \<open>hopResultFor\<close> is what the
  \<^verbatim>\<open>try\<close>/\<^verbatim>\<open>catch\<close> of one iteration writes into the slot; with no parameter at
  \<^verbatim>\<open>quoteIndex\<close> the \<^verbatim>\<open>try\<close> block throws a TypeError, which has no \<^verbatim>\<open>errorCode\<close>.
\<close>

definition hopResultFor ::
  "(SwapQuoteParam \<Rightarrow> SwapErrorCode option + SwapQuote) \<Rightarrow> SwapQuoteParam list \<Rightarrow>
   QuoteUpdate \<Rightarrow> HopResult" where
  "hopResultFor swapQuoteWithParams quoteParams u =
     (case nthOpt quoteParams (quoteIndex u) of
        None \<Rightarrow> Failure None
      | Some swapParam \<Rightarrow>
          (case swapQuoteWithParams swapParam of
             Inl errorCode \<Rightarrow> Failure errorCode
           | Inr q \<Rightarrow>
               let wd = whirlpoolData swapParam;
                   mintA = WhirlpoolData.tokenMintA wd; mintB = WhirlpoolData.tokenMintB wd;
                   inputMint = (if aToB swapParam then mintA else mintB);
                   outputMint = (if aToB swapParam then mintB else mintA)
               in Success
                    \<lparr> Hop.percent = QuoteUpdate.percent u,
                      Hop.amountIn = (if SwapQuoteParam.amountSpecifiedIsInput swapParam
                                  then SwapQuoteParam.tokenAmount swapParam
                                  else otherAmountThreshold q),
                      Hop.amountOut = (if SwapQuoteParam.amountSpecifiedIsInput swapParam
                                   then otherAmountThreshold q
                                   else SwapQuoteParam.tokenAmount swapParam),
                      Hop.whirlpool = QuoteUpdate.address u,
                      inputMint = inputMint, outputMint = outputMint,
                      mintA = mintA, mintB = mintB,
                      vaultA = tokenVaultA wd, vaultB = tokenVaultB wd,
                      quote = q \<rparr>))"

text \<open>
  One iteration of \<^verbatim>\<open>updateQuoteMap\<close>. \<^verbatim>\<open>quoteMap[percent][routeIndex]\<close> is read outside
  the \<^verbatim>\<open>try\<close>; when the entry is \<^verbatim>\<open>undefined\<close> the write in the \<^verbatim>\<open>catch\<close> block throws
  again, so both faults leave the function.
\<close>

definition updateBody ::
  "(SwapQuoteParam \<Rightarrow> SwapErrorCode option + SwapQuote) \<Rightarrow> SwapQuoteParam list \<Rightarrow>
   QuoteUpdate \<Rightarrow> QuoteMap \<Rightarrow> fault + QuoteMap" where
  "updateBody swapQuoteWithParams quoteParams u quoteMap =
     (case map_of quoteMap (QuoteUpdate.percent u) of
        None \<Rightarrow> Inl TypeError
      | Some bucket \<Rightarrow>
          (case jsGet bucket (routeIndex u) of
             None \<Rightarrow> Inl TypeError
           | Some r \<Rightarrow>
               Inr (setKey (QuoteUpdate.percent u)
                      (bucket[routeIndex u := Some (r\<lparr> InternalRouteQuote.calculatedHops :=
                           jsSet (InternalRouteQuote.calculatedHops r) (hopIndex u)
                             (hopResultFor swapQuoteWithParams quoteParams u) \<rparr>)])
                      quoteMap)))"

definition updateQuoteMap ::
  "(SwapQuoteParam \<Rightarrow> SwapErrorCode option + SwapQuote) \<Rightarrow> QuoteUpdate list \<Rightarrow>
   SwapQuoteParam list \<Rightarrow> QuoteMap \<Rightarrow> fault + QuoteMap" where
  "updateQuoteMap swapQuoteWithParams quoteUpdates quoteParams quoteMap =
     forEach (updateBody swapQuoteWithParams quoteParams) quoteUpdates quoteMap"

section \<open>Quote aggregator\<close>

type_synonym CleanQuoteMap = "(nat \<times> RouteQuote list) list"

text \<open>The two \<^verbatim>\<open>flatMap\<close> filters of \<^verbatim>\<open>categorizeQuotes\<close>; \<^verbatim>\<open>flatMap\<close> skips holes.\<close>

fun successHops :: "HopResult option list \<Rightarrow> Hop list" where
  "successHops [] = []"
| "successHops (Some (Success h) # rest) = h # successHops rest"
| "successHops (_ # rest) = successHops rest"

fun failedHops :: "HopResult option list \<Rightarrow> SwapErrorCode option list" where
  "failedHops [] = []"
| "failedHops (Some (Failure e) # rest) = e # failedHops rest"
| "failedHops (_ # rest) = failedHops rest"

text \<open>
  The body of \<^verbatim>\<open>for (const { route, calculatedHops } of uncleanedQuotes)\<close>. Destructuring
  a hole, reading \<^verbatim>\<open>filteredCalculatedHops[-1]\<close> of an empty chain and reading
  \<^verbatim>\<open>quoteFailures[0].error\<close> of an empty list throw a TypeError. \<open>tradeAmount\<close> is the
  argument of \<^verbatim>\<open>categorizeQuotes\<close>.
\<close>

definition categorizeBody ::
  "u64 \<Rightarrow> bool \<Rightarrow> nat \<Rightarrow> InternalRouteQuote option \<Rightarrow>
   RouteQuote list \<times> SwapErrorCode option set \<Rightarrow> fault + RouteQuote list \<times> SwapErrorCode option set" where
  "categorizeBody tradeAmount amountIsInput pct slot st =
     (case slot of
        None \<Rightarrow> Inl TypeError
      | Some uq \<Rightarrow>
          let filteredCalculatedHops = successHops (InternalRouteQuote.calculatedHops uq) in
          if length filteredCalculatedHops = length (InternalRouteQuote.route uq)
          then (if filteredCalculatedHops = [] then Inl TypeError
                else
                  let otherAmount =
                        (if amountIsInput then Hop.amountOut (last filteredCalculatedHops)
                         else Hop.amountIn (hd filteredCalculatedHops))
                  in Inr (fst st @
                          [\<lparr> RouteQuote.percent = pct,
                             RouteQuote.route = InternalRouteQuote.route uq,
                             RouteQuote.amountIn = (if amountIsInput then tradeAmount else otherAmount),
                             RouteQuote.amountOut = (if amountIsInput then otherAmount else tradeAmount),
                             RouteQuote.calculatedHops = map Success filteredCalculatedHops \<rparr>],
                          snd st))
          else (case failedHops (InternalRouteQuote.calculatedHops uq) of
                  [] \<Rightarrow> Inl TypeError
                | e # _ \<Rightarrow> Inr (fst st, insert e (snd st))))"

text \<open>The body of the loop over \<^verbatim>\<open>Object.keys(quoteMap)\<close>.\<close>

definition categorizePercent ::
  "u64 \<Rightarrow> bool \<Rightarrow> nat \<times> QuoteBucket \<Rightarrow>
   CleanQuoteMap \<times> SwapErrorCode option set \<Rightarrow> fault + CleanQuoteMap \<times> SwapErrorCode option set" where
  "categorizePercent tradeAmount amountIsInput pb st =
     (case forEach (categorizeBody tradeAmount amountIsInput (fst pb)) (snd pb) ([], snd st) of
        Inl e \<Rightarrow> Inl e
      | Inr (cleaned, failureErrors) \<Rightarrow> Inr (setKey (fst pb) cleaned (fst st), failureErrors))"

definition categorizeQuotes ::
  "u64 \<Rightarrow> bool \<Rightarrow> QuoteMap \<Rightarrow> fault + CleanQuoteMap \<times> SwapErrorCode option set" where
  "categorizeQuotes tradeAmount amountIsInput quoteMap =
     forEach (categorizePercent tradeAmount amountIsInput) quoteMap ([], {})"

section \<open>Quote pruner\<close>

definition sortFn :: "bool \<Rightarrow> RouteQuote \<Rightarrow> RouteQuote \<Rightarrow> int" where
  "sortFn amountIsInput =
     (if amountIsInput then (\<lambda>a b. cmp (RouteQuote.amountOut b) (RouteQuote.amountOut a))
      else (\<lambda>a b. cmp (RouteQuote.amountIn a) (RouteQuote.amountIn b)))"

text \<open>
  \<^verbatim>\<open>quoteMap[percents[i]].sort(sortFn)\<close> sorts the array of the argument in place and
  \<^verbatim>\<open>slice\<close> copies a prefix of it: the function returns the pruned map, and the map it
  was given now holds the sorted arrays. Both are returned, in this order.
\<close>

definition pruneQuoteMap :: "CleanQuoteMap \<Rightarrow> nat \<Rightarrow> bool \<Rightarrow> CleanQuoteMap \<times> CleanQuoteMap" where
  "pruneQuoteMap quoteMap pruneN amountIsInput =
     (let sortedMap = map (\<lambda>(p, qs). (p, jsSort (sortFn amountIsInput) qs)) quoteMap
      in (map (\<lambda>(p, sortedQuotes). (p, take pruneN sortedQuotes)) sortedMap, sortedMap))"

section \<open>Degenerate single-hop candidates\<close>

definition getSingleHopSplit :: "CleanQuoteMap \<Rightarrow> TradeRoute list" where
  "getSingleHopSplit quoteMap =
     (case map_of quoteMap 100 of
        None \<Rightarrow> []
      | Some fullFlow \<Rightarrow>
          concat (map (\<lambda>f. case RouteQuote.calculatedHops f of
                             [Success oneHop] \<Rightarrow>
                               [\<lparr> quotes = [f], TradeRoute.percent = 100,
                                  totalIn = Hop.amountIn oneHop, totalOut = Hop.amountOut oneHop \<rparr>]
                           | _ \<Rightarrow> [])
                    fullFlow))"

section \<open>Route optimizer\<close>

text \<open>
  The collaborators whose code is outside the router: the pair identifier of the pool
  graph, the prefetch of the state fetcher (\<open>Some\<close> a fault when it throws), the batched
  construction of quote parameters, the quote engine, and the ranker with its comparator.
\<close>

record Collaborators =
  getRouteId :: "Address \<Rightarrow> Address \<Rightarrow> string"
  prefetchRoutes :: "Route list \<Rightarrow> fault option"
  batchBuildSwapQuoteParams :: "QuoteRequest list \<Rightarrow> fault + SwapQuoteParam list"
  swapQuoteWithParams :: "SwapQuoteParam \<Rightarrow> SwapErrorCode option + SwapQuote"
  getRankedRoutes :: "CleanQuoteMap \<Rightarrow> bool \<Rightarrow> nat \<Rightarrow> nat \<Rightarrow> TradeRoute list"
  getRouteCompareFn :: "bool \<Rightarrow> TradeRoute \<Rightarrow> TradeRoute \<Rightarrow> int"

text \<open>The body of \<^verbatim>\<open>for (const hop of iteration)\<close>.\<close>

definition hopBody ::
  "Collaborators \<Rightarrow> Address \<Rightarrow> Address \<Rightarrow> (string \<rightharpoonup> TokenPairPool) \<Rightarrow> Route list \<Rightarrow>
   nat list \<Rightarrow> u64 list \<Rightarrow> bool \<Rightarrow> nat \<Rightarrow> QuoteMap \<Rightarrow> fault + QuoteMap" where
  "hopBody ext inputTokenMint outputTokenMint pools pairRoutes percents amounts amountIsInput hop
       quoteMap =
     (case buildQuoteUpdateRequests inputTokenMint outputTokenMint pools pairRoutes percents amounts
             hop amountIsInput quoteMap of
        Inl e \<Rightarrow> Inl e
      | Inr (quoteUpdates, quoteMap1) \<Rightarrow>
          (case batchBuildSwapQuoteParams ext (map request quoteUpdates) of
             Inl e \<Rightarrow> Inl e
           | Inr quoteParams \<Rightarrow>
               updateQuoteMap (swapQuoteWithParams ext) quoteUpdates quoteParams quoteMap1))"

text \<open>
  \<^verbatim>\<open>Array.from(Array(maxRouteLength).keys())\<close>, reversed for an exact-output trade;
  \<open>maxRouteLength\<close> is the greatest route length (of a non-empty list of routes).
\<close>

definition iteration :: "Route list \<Rightarrow> bool \<Rightarrow> nat list" where
  "iteration pairRoutes amountIsInput =
     (let maxRouteLength = fold max (map length pairRoutes) 0 in
      if amountIsInput then [0..<maxRouteLength] else rev [0..<maxRouteLength])"

definition hopLoop ::
  "Collaborators \<Rightarrow> Address \<Rightarrow> Address \<Rightarrow> (string \<rightharpoonup> TokenPairPool) \<Rightarrow> Route list \<Rightarrow>
   nat list \<Rightarrow> u64 list \<Rightarrow> bool \<Rightarrow> fault + QuoteMap" where
  "hopLoop ext inputTokenMint outputTokenMint pools pairRoutes percents amounts amountIsInput =
     forEach (hopBody ext inputTokenMint outputTokenMint pools pairRoutes percents amounts
                amountIsInput)
       (iteration pairRoutes amountIsInput) []"

text \<open>Lines 128 to 137: pruning, ranking, the single-hop candidates and the final sort.\<close>

definition rankRoutes :: "Collaborators \<Rightarrow> bool \<Rightarrow> RoutingOptions \<Rightarrow> CleanQuoteMap \<Rightarrow> TradeRoute list" where
  "rankRoutes ext amountIsInput routingOptions cleanedQuoteMap =
     (let pruned = pruneQuoteMap cleanedQuoteMap
                     (RoutingOptions.numTopPartialQuotes routingOptions) amountIsInput;
          prunedQuoteMap = fst pruned; cleanedQuoteMap' = snd pruned
      in jsSort (getRouteCompareFn ext amountIsInput)
           (getRankedRoutes ext prunedQuoteMap amountIsInput
              (RoutingOptions.numTopRoutes routingOptions) (RoutingOptions.maxSplits routingOptions)
            @ getSingleHopSplit cleanedQuoteMap'))"

text \<open>Lines 140 to 153: the diagnosis of an empty result.\<close>

definition conclude :: "TradeRoute list \<Rightarrow> SwapErrorCode option set \<Rightarrow> BestRoutesResult" where
  "conclude bestRoutes failures =
     (if length bestRoutes = 0 \<and> Some TickArraySequenceInvalid \<in> failures
      then FailureResult TRADE_AMOUNT_TOO_HIGH
      else SuccessResult bestRoutes)"

text \<open>
  Everything \<^verbatim>\<open>findBestRoutes\<close> does before that diagnosis: \<open>Inl\<close> when the call ends
  early, \<open>Inr\<close> the pair \<^verbatim>\<open>bestRoutes\<close>, \<^verbatim>\<open>failures\<close>. \<^verbatim>\<open>Math.max\<close> of no lengths is
  \<^verbatim>\<open>-Infinity\<close>, for which \<^verbatim>\<open>Array(maxRouteLength)\<close> throws a RangeError. The value is
  \<open>None\<close> when the slicer does not return.
\<close>

definition routeSearch ::
  "Collaborators \<Rightarrow> Address \<Rightarrow> Address \<Rightarrow> u64 \<Rightarrow> bool \<Rightarrow> (string \<rightharpoonup> Route list) \<Rightarrow>
   (string \<rightharpoonup> TokenPairPool) \<Rightarrow> PartialRoutingOptions \<Rightarrow>
   (promise + TradeRoute list \<times> SwapErrorCode option set) option" where
  "routeSearch ext inputTokenMint outputTokenMint tradeAmount amountIsInput walks pools
       userRoutingOptions =
     (case walks (getRouteId ext inputTokenMint outputTokenMint) of
        None \<Rightarrow> Some (Inl (Rejected (RejectedWith (FailureResult ROUTE_DOES_NOT_EXIST))))
      | Some pairRoutes \<Rightarrow>
          if tradeAmount = 0
          then Some (Inl (Rejected (RejectedWith (FailureResult ZERO_INPUT_AMOUNT))))
          else
            let routingOptions = mergeOptions userRoutingOptions in
            (case prefetchRoutes ext pairRoutes of
               Some e \<Rightarrow> Some (Inl (Rejected (Thrown e)))
             | None \<Rightarrow>
                 (case generatePercentageAmounts tradeAmount
                         (RoutingOptions.percentIncrement routingOptions) of
                    None \<Rightarrow> None
                  | Some (percents, amounts) \<Rightarrow>
                      if pairRoutes = [] then Some (Inl (Rejected (Thrown RangeError)))
                      else
                        (case hopLoop ext inputTokenMint outputTokenMint pools pairRoutes percents
                                amounts amountIsInput of
                           Inl e \<Rightarrow> Some (Inl (Resolved (FailureResult GENERAL)))
                         | Inr quoteMap \<Rightarrow>
                             (case categorizeQuotes tradeAmount amountIsInput quoteMap of
                                Inl e \<Rightarrow> Some (Inl (Rejected (Thrown e)))
                              | Inr (cleanedQuoteMap, failures) \<Rightarrow>
                                  Some (Inr (rankRoutes ext amountIsInput routingOptions
                                               cleanedQuoteMap, failures)))))))"

definition findBestRoutes ::
  "Collaborators \<Rightarrow> Address \<Rightarrow> Address \<Rightarrow> u64 \<Rightarrow> bool \<Rightarrow> (string \<rightharpoonup> Route list) \<Rightarrow>
   (string \<rightharpoonup> TokenPairPool) \<Rightarrow> PartialRoutingOptions \<Rightarrow> promise option" where
  "findBestRoutes ext inputTokenMint outputTokenMint tradeAmount amountIsInput walks pools
       userRoutingOptions =
     (case routeSearch ext inputTokenMint outputTokenMint tradeAmount amountIsInput walks pools
             userRoutingOptions of
        None \<Rightarrow> None
      | Some (Inl early) \<Rightarrow> Some early
      | Some (Inr (bestRoutes, failures)) \<Rightarrow> Some (Resolved (conclude bestRoutes failures)))"

section \<open>Example inputs\<close>

text \<open>
  Pools \<open>p1\<close> and \<open>p5\<close> (both A, X), \<open>p2\<close> (X, B), \<open>p3\<close> and \<open>p4\<close> (both A, B), a pool
  graph keyed by \<open>input/output\<close>, and collaborators: parameters are built from the pool
  table, the engine quotes one to one and rejects the pools whose first vault is listed
  in \<open>failing\<close> with \<^verbatim>\<open>TickArraySequenceInvalid\<close>, and the ranker lists the quotes of the pruned
  100 bucket, at most \<open>topN\<close> of them.
\<close>

definition exPoolTable :: "(string \<times> TokenPairPool) list" where
  "exPoolTable =
     [(''p1'', \<lparr> TokenPairPool.address = ''p1'', TokenPairPool.tokenMintA = ''A'', TokenPairPool.tokenMintB = ''X'' \<rparr>),
      (''p2'', \<lparr> TokenPairPool.address = ''p2'', TokenPairPool.tokenMintA = ''X'', TokenPairPool.tokenMintB = ''B'' \<rparr>),
      (''p3'', \<lparr> TokenPairPool.address = ''p3'', TokenPairPool.tokenMintA = ''A'', TokenPairPool.tokenMintB = ''B'' \<rparr>),
      (''p4'', \<lparr> TokenPairPool.address = ''p4'', TokenPairPool.tokenMintA = ''A'', TokenPairPool.tokenMintB = ''B'' \<rparr>),
      (''p5'', \<lparr> TokenPairPool.address = ''p5'', TokenPairPool.tokenMintA = ''A'', TokenPairPool.tokenMintB = ''X'' \<rparr>)]"

definition exPools :: "string \<rightharpoonup> TokenPairPool" where
  "exPools = map_of exPoolTable"

definition exParam :: "QuoteRequest \<Rightarrow> SwapQuoteParam" where
  "exParam r =
     (case exPools (QuoteRequest.whirlpool r) of
        None \<Rightarrow>
          \<lparr> whirlpoolData = \<lparr> WhirlpoolData.tokenMintA = [], WhirlpoolData.tokenMintB = [],
                              tokenVaultA = [], tokenVaultB = [] \<rparr>,
            SwapQuoteParam.tokenAmount = QuoteRequest.tokenAmount r, aToB = True,
            SwapQuoteParam.amountSpecifiedIsInput = QuoteRequest.amountSpecifiedIsInput r \<rparr>
      | Some pool \<Rightarrow>
          \<lparr> whirlpoolData =
              \<lparr> WhirlpoolData.tokenMintA = TokenPairPool.tokenMintA pool,
                WhirlpoolData.tokenMintB = TokenPairPool.tokenMintB pool,
                tokenVaultA = TokenPairPool.address pool @ ''/a'',
                tokenVaultB = TokenPairPool.address pool @ ''/b'' \<rparr>,
            SwapQuoteParam.tokenAmount = QuoteRequest.tokenAmount r,
            aToB = ((tradeTokenMint r = TokenPairPool.tokenMintA pool) =
                    QuoteRequest.amountSpecifiedIsInput r),
            SwapQuoteParam.amountSpecifiedIsInput = QuoteRequest.amountSpecifiedIsInput r \<rparr>)"

definition exEngine :: "Address list \<Rightarrow> SwapQuoteParam \<Rightarrow> SwapErrorCode option + SwapQuote" where
  "exEngine failing p =
     (if tokenVaultA (whirlpoolData p) \<in> set failing
      then Inl (Some TickArraySequenceInvalid)
      else Inr \<lparr> otherAmountThreshold = SwapQuoteParam.tokenAmount p \<rparr>)"

definition exRanked :: "CleanQuoteMap \<Rightarrow> bool \<Rightarrow> nat \<Rightarrow> nat \<Rightarrow> TradeRoute list" where
  "exRanked prunedQuoteMap amountIsInput topN splits =
     take topN
       (map (\<lambda>q. \<lparr> quotes = [q], TradeRoute.percent = 100,
                   totalIn = RouteQuote.amountIn q, totalOut = RouteQuote.amountOut q \<rparr>)
          (case map_of prunedQuoteMap 100 of None \<Rightarrow> [] | Some qs \<Rightarrow> qs))"

definition exCompare :: "bool \<Rightarrow> TradeRoute \<Rightarrow> TradeRoute \<Rightarrow> int" where
  "exCompare amountIsInput a b =
     (if amountIsInput then cmp (totalOut b) (totalOut a) else cmp (totalIn a) (totalIn b))"

definition exCollaborators :: "Address list \<Rightarrow> Collaborators" where
  "exCollaborators failing =
     \<lparr> getRouteId = (\<lambda>a b. a @ ''/'' @ b),
       prefetchRoutes = (\<lambda>_. None),
       batchBuildSwapQuoteParams = (\<lambda>rs. Inr (map exParam rs)),
       swapQuoteWithParams = exEngine failing,
       getRankedRoutes = exRanked,
       getRouteCompareFn = exCompare \<rparr>"

definition exOptions :: "nat \<Rightarrow> nat \<Rightarrow> PartialRoutingOptions" where
  "exOptions increment topRoutes =
     \<lparr> PartialRoutingOptions.percentIncrement = Some increment,
       PartialRoutingOptions.numTopRoutes = Some topRoutes,
       PartialRoutingOptions.numTopPartialQuotes = None,
       PartialRoutingOptions.maxSplits = None \<rparr>"

text \<open>
  The list a resolved success carries, and a complete one-hop quote of the 100 bucket
  over pool \<open>pool\<close> that sends 1000 in and receives \<open>out\<close>.
\<close>

fun bestRoutesOf :: "promise option \<Rightarrow> TradeRoute list option" where
  "bestRoutesOf (Some (Resolved (SuccessResult bestRoutes))) = Some bestRoutes"
| "bestRoutesOf _ = None"

definition exHop :: "Address \<Rightarrow> u64 \<Rightarrow> Hop" where
  "exHop pool out =
     \<lparr> Hop.percent = 100, Hop.amountIn = 1000, Hop.amountOut = out, Hop.whirlpool = pool,
       inputMint = ''A'', outputMint = ''B'', mintA = ''A'', mintB = ''B'',
       vaultA = pool @ ''/a'', vaultB = pool @ ''/b'',
       quote = \<lparr> otherAmountThreshold = out \<rparr> \<rparr>"

definition exQuote :: "Address \<Rightarrow> u64 \<Rightarrow> RouteQuote" where
  "exQuote pool out =
     \<lparr> RouteQuote.percent = 100, RouteQuote.route = [pool], RouteQuote.amountIn = 1000,
       RouteQuote.amountOut = out, RouteQuote.calculatedHops = [Success (exHop pool out)] \<rparr>"

definition exSingle :: "Address \<Rightarrow> u64 \<Rightarrow> TradeRoute" where
  "exSingle pool out =
     \<lparr> quotes = [exQuote pool out], TradeRoute.percent = 100, totalIn = 1000, totalOut = out \<rparr>"

text \<open>An update of the 100 bucket for route \<open>ri\<close>, a one-hop route over \<open>pool\<close>, at hop 0.\<close>

definition exUpdate :: "nat \<Rightarrow> nat \<Rightarrow> Address \<Rightarrow> QuoteUpdate" where
  "exUpdate ri qi pool =
     \<lparr> QuoteUpdate.percent = 100, routeIndex = ri, hopIndex = 0, quoteIndex = qi,
       address = pool,
       request = \<lparr> QuoteRequest.whirlpool = pool, tradeTokenMint = ''A'',
                   QuoteRequest.tokenAmount = 1000,
                   QuoteRequest.amountSpecifiedIsInput = True \<rparr> \<rparr>"


section \<open>Predicates of the statements\<close>

text \<open>The entry that \<^verbatim>\<open>buildQuoteUpdateRequests\<close> writes when it starts a route.\<close>

definition freshQuote :: "nat \<Rightarrow> Route \<Rightarrow> InternalRouteQuote" where
  "freshQuote pct r =
     \<lparr> InternalRouteQuote.route = r, InternalRouteQuote.percent = pct,
       InternalRouteQuote.calculatedHops = replicate (length r) None \<rparr>"

text \<open>
  \<open>due\<close>: the route is eligible at this hop and is either at its first hop or has an
  adjacent hop that succeeded. \<open>wellBuilt\<close>: the request of an update carries the slice
  amount and the fixed token at the first hop of the route, and the amount and token of
  the adjacent successful hop otherwise.
\<close>

definition due :: "bool \<Rightarrow> nat \<Rightarrow> InternalRouteQuote option \<Rightarrow> Route \<Rightarrow> bool" where
  "due a hop entry r \<longleftrightarrow>
     \<not> routeSkipped a hop r \<and>
     (startingRouteEval a hop r \<or>
      (\<exists>cq h. entry = Some cq \<and>
               lastHopOf a hop (InternalRouteQuote.calculatedHops cq) = Some (Success h)))"

definition wellBuilt ::
  "Address \<Rightarrow> Address \<Rightarrow> bool \<Rightarrow> nat \<Rightarrow> u64 \<Rightarrow> InternalRouteQuote option \<Rightarrow> Route \<Rightarrow>
   QuoteUpdate \<Rightarrow> bool" where
  "wellBuilt inputTokenMint outputTokenMint a hop amt entry r u \<longleftrightarrow>
     \<not> routeSkipped a hop r \<and>
     (if startingRouteEval a hop r
      then QuoteRequest.tokenAmount (request u) = amt \<and>
           tradeTokenMint (request u) = (if a then inputTokenMint else outputTokenMint)
      else (\<exists>cq h. entry = Some cq \<and>
                    lastHopOf a hop (InternalRouteQuote.calculatedHops cq) = Some (Success h) \<and>
                    QuoteRequest.tokenAmount (request u) =
                      (if a then Hop.amountOut h else Hop.amountIn h) \<and>
                    tradeTokenMint (request u) =
                      (if a then Hop.outputMint h else Hop.inputMint h)))"

text \<open>
  The entry \<^verbatim>\<open>quoteMap[percent][routeIndex]\<close>, and the order in which the requests of one
  hop are listed: by percentage, then by route index.
\<close>

definition entryAt :: "QuoteMap \<Rightarrow> nat \<Rightarrow> nat \<Rightarrow> InternalRouteQuote option" where
  "entryAt quoteMap pct ri = (case map_of quoteMap pct of None \<Rightarrow> None | Some b \<Rightarrow> jsGet b ri)"

definition listedBefore :: "QuoteUpdate \<Rightarrow> QuoteUpdate \<Rightarrow> bool" where
  "listedBefore u v \<longleftrightarrow>
     QuoteUpdate.percent u < QuoteUpdate.percent v \<or>
     (QuoteUpdate.percent u = QuoteUpdate.percent v \<and> routeIndex u < routeIndex v)"

text \<open>
  \<open>rewritten result us pct ri e e'\<close>: the entry \<open>e'\<close> is the entry \<open>e\<close> of percentage \<open>pct\<close>
  and route \<open>ri\<close> after the updates \<open>us\<close> were applied, each writing \<open>result u\<close> into the slot
  \<^verbatim>\<open>hopIndex\<close>; a slot that no update names is unchanged.
\<close>

definition rewritten ::
  "(QuoteUpdate \<Rightarrow> HopResult) \<Rightarrow> QuoteUpdate list \<Rightarrow> nat \<Rightarrow> nat \<Rightarrow>
   InternalRouteQuote \<Rightarrow> InternalRouteQuote \<Rightarrow> bool" where
  "rewritten result us pct ri e e' \<longleftrightarrow>
     InternalRouteQuote.route e' = InternalRouteQuote.route e \<and>
     InternalRouteQuote.percent e' = InternalRouteQuote.percent e \<and>
     (\<forall>h. (\<exists>u \<in> set us. QuoteUpdate.percent u = pct \<and> routeIndex u = ri \<and> hopIndex u = h) \<longrightarrow>
          (\<exists>u \<in> set us. QuoteUpdate.percent u = pct \<and> routeIndex u = ri \<and> hopIndex u = h \<and>
             jsGet (InternalRouteQuote.calculatedHops e') h = Some (result u))) \<and>
     (\<forall>h. \<not> (\<exists>u \<in> set us. QuoteUpdate.percent u = pct \<and> routeIndex u = ri \<and> hopIndex u = h) \<longrightarrow>
          jsGet (InternalRouteQuote.calculatedHops e') h =
          jsGet (InternalRouteQuote.calculatedHops e) h) \<and>
     ((\<forall>u \<in> set us. QuoteUpdate.percent u = pct \<and> routeIndex u = ri \<longrightarrow>
                      hopIndex u < length (InternalRouteQuote.calculatedHops e)) \<longrightarrow>
      length (InternalRouteQuote.calculatedHops e') = length (InternalRouteQuote.calculatedHops e))"

text \<open>
  \<open>chain t hs\<close>: of the hops \<open>hs\<close> of one entry, listed in processing order, the first \<open>t\<close>
  were processed: successes, then possibly one failure, and no slot is set after a
  failure or beyond the first \<open>t\<close>. \<open>ordered\<close> lists \<^verbatim>\<open>calculatedHops\<close> in processing order:
  as it is for an exact-input trade, reversed for an exact-output trade.
\<close>

fun chain :: "nat \<Rightarrow> HopResult option list \<Rightarrow> bool" where
  "chain t [] = True"
| "chain 0 (x # xs) = (x = None \<and> chain 0 xs)"
| "chain (Suc t) (Some (Success h) # xs) = chain t xs"
| "chain (Suc t) (Some (Failure e) # xs) = chain 0 xs"
| "chain (Suc t) (None # xs) = False"

definition ordered :: "bool \<Rightarrow> HopResult option list \<Rightarrow> HopResult option list" where
  "ordered a hs = (if a then hs else rev hs)"

text \<open>
  \<open>progressOf a M t L\<close>: how many hops of a route of length \<open>L\<close> are processed after \<open>t\<close>
  iterations of the hop loop over \<open>M\<close> hops. \<open>statesOK\<close>: every bucket belongs to a
  percentage of the slicer and has one slot per route, and every entry holds its route
  and a chain of that progress.
\<close>

definition progressOf :: "bool \<Rightarrow> nat \<Rightarrow> nat \<Rightarrow> nat \<Rightarrow> nat" where
  "progressOf a M t L = (if a then t else L - (M - t))"

definition statesOK :: "bool \<Rightarrow> Route list \<Rightarrow> nat set \<Rightarrow> nat \<Rightarrow> nat \<Rightarrow> QuoteMap \<Rightarrow> bool" where
  "statesOK a rs P M t qm \<longleftrightarrow>
     (\<forall>p b. map_of qm p = Some b \<longrightarrow> p \<in> P \<and> length b = length rs) \<and>
     (\<forall>p j e. entryAt qm p j = Some e \<longrightarrow>
        InternalRouteQuote.route e = rs ! j \<and>
        length (InternalRouteQuote.calculatedHops e) = length (rs ! j) \<and>
        (a \<or> M - t < length (rs ! j)) \<and>
        chain (progressOf a M t (length (rs ! j))) (ordered a (InternalRouteQuote.calculatedHops e)))"

section \<open>The percentage slicer returns the slices in order\<close>

lemma slicerLoop_run:
  assumes "0 < m" "i \<le> Suc (100 div m)"
  shows "slicerLoop T m i acc =
           Some (fst acc @ map (\<lambda>k. k * m) [i..<Suc (100 div m)],
                 snd acc @ map (\<lambda>k. T * (k * m) div 100) [i..<Suc (100 div m)])"
  using assms
proof (induction "Suc (100 div m) - i" arbitrary: i acc)
  case 0
  then have i: "i = Suc (100 div m)" by simp
  have "\<not> i * m \<le> 100"
  proof -
    have "100 < Suc (100 div m) * m" using \<open>0 < m\<close>
      by (metis dividend_less_div_times mult.commute mult_Suc)
    then show ?thesis using i by simp
  qed
  then show ?case using \<open>0 < m\<close> i by (subst slicerLoop.simps) simp
next
  case (Suc d)
  then have lt: "i < Suc (100 div m)" by simp
  then have "i \<le> 100 div m" by simp
  then have le: "i * m \<le> 100" using \<open>0 < m\<close>
    by (simp add: less_eq_div_iff_mult_less_eq)
  have step: "slicerLoop T m i acc = slicerLoop T m (i + 1)
             (fst acc @ [i * m], snd acc @ [T * (i * m) div 100])"
    using le by (subst slicerLoop.simps) simp
  have "Suc d = Suc (100 div m) - i" using Suc.hyps(2) .
  then have d: "d = Suc (100 div m) - (i + 1)" by simp
  have up: "[i..<Suc (100 div m)] = i # [i + 1..<Suc (100 div m)]"
    using lt by (simp add: upt_conv_Cons)
  show ?case
    unfolding step using Suc.hyps(1)[OF d \<open>0 < m\<close>] lt up by simp
qed

text \<open>
  Claim C3. For every total trade amount \<open>T\<close> and every increment \<open>inc\<close> that divides 100,
  \<^verbatim>\<open>generatePercentageAmounts\<close> returns, and returns the percentages \<open>inc\<close>, \<open>2 * inc\<close>,
  ..., 100 in increasing order with, at the position of each percentage \<open>p\<close>, the amount
  \<open>T * p div 100\<close> (truncating division); the amounts never decrease along the list.
\<close>

theorem generatePercentageAmounts_slices:
  assumes "inc dvd 100"
  shows "\<exists>percents amounts.
           generatePercentageAmounts T inc = Some (percents, amounts) \<and>
           percents = map (\<lambda>k. k * inc) [1..<Suc (100 div inc)] \<and>
           last percents = 100 \<and>
           sorted_wrt (<) percents \<and>
           amounts = map (\<lambda>p. T * p div 100) percents \<and>
           sorted amounts"
proof -
  from assms have pos: "0 < inc" by (cases "inc = 0") auto
  let ?n = "100 div inc"
  have n: "?n * inc = 100" using assms by simp
  have npos: "0 < ?n" using n by (cases "?n = 0") auto
  let ?ps = "map (\<lambda>k. k * inc) [1..<Suc ?n]"
  have run: "generatePercentageAmounts T inc =
        Some (?ps, map (\<lambda>k. T * (k * inc) div 100) [1..<Suc ?n])"
    unfolding generatePercentageAmounts_def
    using slicerLoop_run[OF pos, of 1 T "([], [])"] npos by simp
  have am: "map (\<lambda>k. T * (k * inc) div 100) [1..<Suc ?n] = map (\<lambda>p. T * p div 100) ?ps"
    by simp
  have lst: "last ?ps = 100"
  proof -
    have "[1..<Suc ?n] \<noteq> []" using npos by simp
    then have "last ?ps = last [1..<Suc ?n] * inc" by (simp add: last_map)
    also have "last [1..<Suc ?n] = ?n" using npos by simp
    finally show ?thesis using n by simp
  qed
  have up: "sorted_wrt (<) [1..<Suc ?n]" by (rule sorted_wrt_upt)
  have sp: "sorted_wrt (<) ?ps"
    unfolding sorted_wrt_map
    by (rule sorted_wrt_mono_rel[OF _ up]) (use pos in simp)
  have sa: "sorted (map (\<lambda>p. T * p div 100) ?ps)"
    unfolding sorted_wrt_map
    by (rule sorted_wrt_mono_rel[OF _ up]) (simp add: div_le_mono)
  show ?thesis using run am lst sp sa by metis
qed

theorem generatePercentageAmounts_slices_witness:
  "(20::nat) dvd 100 \<and>
   generatePercentageAmounts 1003 20 = Some ([20, 40, 60, 80, 100], [200, 401, 601, 802, 1003])"
proof -
  have d: "(20::nat) dvd 100" by simp
  have e: "[1..<Suc (100 div 20)] = [1, 2, 3, 4, 5]" by (simp add: upt_rec)
  from generatePercentageAmounts_slices[OF d, of 1003] e show ?thesis using d by simp
qed

section \<open>The pruner keeps the head of a stable sort\<close>

lemma insortCmp_insort_key:
  assumes "\<And>x y. c x y \<le> 0 \<longleftrightarrow> f x \<le> f y"
  shows "insortCmp c x ys = insort_key f x ys"
  by (induction ys) (simp_all add: assms)

lemma jsSort_sort_key:
  assumes "\<And>x y. c x y \<le> 0 \<longleftrightarrow> f x \<le> f y"
  shows "jsSort c xs = sort_key f xs"
proof -
  have "insortCmp c = insort_key f"
    using insortCmp_insort_key[of c f, OF assms] by (intro ext)
  then show ?thesis by (simp add: jsSort_def sort_key_def)
qed

lemma sortFn_input: "jsSort (sortFn True) qs = sort_key (\<lambda>q. - int (RouteQuote.amountOut q)) qs"
  by (rule jsSort_sort_key) (simp add: sortFn_def cmp_def)

lemma sortFn_output: "jsSort (sortFn False) qs = sort_key RouteQuote.amountIn qs"
  by (rule jsSort_sort_key) (simp add: sortFn_def cmp_def)

lemma mset_insortCmp: "mset (insortCmp c x ys) = add_mset x (mset ys)"
  by (induction ys) simp_all

lemma mset_jsSort: "mset (jsSort c xs) = mset xs"
  by (induction xs) (simp_all add: jsSort_def mset_insortCmp)

lemma sorted_input: "sorted_wrt (\<lambda>a b. RouteQuote.amountOut b \<le> RouteQuote.amountOut a) (jsSort (sortFn True) qs)"
proof -
  have "sorted (map (\<lambda>q. - int (RouteQuote.amountOut q)) (jsSort (sortFn True) qs))"
    unfolding sortFn_input by (rule sorted_sort_key)
  then show ?thesis by (simp add: sorted_wrt_map)
qed

lemma sorted_output: "sorted_wrt (\<lambda>a b. RouteQuote.amountIn a \<le> RouteQuote.amountIn b) (jsSort (sortFn False) qs)"
proof -
  have "sorted (map RouteQuote.amountIn (jsSort (sortFn False) qs))"
    unfolding sortFn_output by (rule sorted_sort_key)
  then show ?thesis by (simp add: sorted_wrt_map)
qed

lemma stable_input:
  "filter (\<lambda>q. RouteQuote.amountOut q = k) (jsSort (sortFn True) qs) = filter (\<lambda>q. RouteQuote.amountOut q = k) qs"
proof -
  have "filter (\<lambda>q. - int (RouteQuote.amountOut q) = - int k) (sort_key (\<lambda>q. - int (RouteQuote.amountOut q)) qs)
      = filter (\<lambda>q. - int (RouteQuote.amountOut q) = - int k) qs"
    by (rule sort_key_stable)
  then show ?thesis by (simp add: sortFn_input)
qed

lemma stable_output:
  "filter (\<lambda>q. RouteQuote.amountIn q = k) (jsSort (sortFn False) qs) = filter (\<lambda>q. RouteQuote.amountIn q = k) qs"
  unfolding sortFn_output by (rule sort_key_stable)

text \<open>
  Claim C6. For every percentage bucket on its own, \<^verbatim>\<open>pruneQuoteMap\<close> returns the first
  \<open>pruneN\<close> elements of the bucket's sorted route quotes. The sort is a permutation of
  the bucket, in descending order of \<^verbatim>\<open>amountOut\<close> for an exact-input trade and in ascending
  order of \<^verbatim>\<open>amountIn\<close> for an exact-output trade, and it is stable: the quotes of equal
  ranking key keep the order they had in the bucket.
\<close>

theorem pruneQuoteMap_stable_top:
  "fst (pruneQuoteMap quoteMap pruneN amountIsInput) =
     map (\<lambda>(p, qs). (p, take pruneN (jsSort (sortFn amountIsInput) qs))) quoteMap \<and>
   map_of (fst (pruneQuoteMap quoteMap pruneN amountIsInput)) p =
     map_option (\<lambda>qs. take pruneN (jsSort (sortFn amountIsInput) qs)) (map_of quoteMap p) \<and>
   mset (jsSort (sortFn amountIsInput) qs) = mset qs \<and>
   sorted_wrt (\<lambda>a b. RouteQuote.amountOut b \<le> RouteQuote.amountOut a) (jsSort (sortFn True) qs) \<and>
   sorted_wrt (\<lambda>a b. RouteQuote.amountIn a \<le> RouteQuote.amountIn b) (jsSort (sortFn False) qs) \<and>
   filter (\<lambda>q. RouteQuote.amountOut q = k) (jsSort (sortFn True) qs) =
     filter (\<lambda>q. RouteQuote.amountOut q = k) qs \<and>
   filter (\<lambda>q. RouteQuote.amountIn q = k) (jsSort (sortFn False) qs) =
     filter (\<lambda>q. RouteQuote.amountIn q = k) qs"
proof -
  have shape: "fst (pruneQuoteMap quoteMap pruneN amountIsInput) =
     map (\<lambda>(p, qs). (p, take pruneN (jsSort (sortFn amountIsInput) qs))) quoteMap"
    by (simp add: pruneQuoteMap_def Let_def case_prod_unfold comp_def)
  have look: "map_of (map (\<lambda>(p, qs). (p, g qs)) m) p = map_option g (map_of m p)" for g :: "RouteQuote list \<Rightarrow> RouteQuote list" and m
    by (induction m) auto
  show ?thesis
    unfolding shape look
    using mset_jsSort sorted_input sorted_output stable_input stable_output by blast
qed

section \<open>Evaluation of the example calls\<close>

lemma slices_1000_by_50: "generatePercentageAmounts 1000 50 = Some ([50, 100], [500, 1000])"
  by (simp add: generatePercentageAmounts_def slicerLoop.simps)

lemma exOptions_merged:
  "RoutingOptions.percentIncrement (mergeOptions (exOptions i n)) = i"
  "RoutingOptions.numTopRoutes (mergeOptions (exOptions i n)) = n"
  "RoutingOptions.numTopPartialQuotes (mergeOptions (exOptions i n)) = 10"
  "RoutingOptions.maxSplits (mergeOptions (exOptions i n)) = 3"
  by (simp_all add: mergeOptions_def exOptions_def DEFAULT_ROUTING_OPTIONS_def)

lemma exCollaborators_fields:
  "getRouteId (exCollaborators f) a b = a @ ''/'' @ b"
  "prefetchRoutes (exCollaborators f) rs = None"
  by (simp_all add: exCollaborators_def)




section \<open>Diagnosis of an empty result\<close>



section \<open>Validation failures are delivered by rejection\<close>

lemma findBestRoutes_no_pair:
  assumes "walks (getRouteId ext inputTokenMint outputTokenMint) = None"
  shows "findBestRoutes ext inputTokenMint outputTokenMint tradeAmount amountIsInput walks pools
           userRoutingOptions =
         Some (Rejected (RejectedWith (FailureResult ROUTE_DOES_NOT_EXIST)))"
  using assms by (simp add: findBestRoutes_def routeSearch_def)

lemma findBestRoutes_zero_amount:
  assumes "walks (getRouteId ext inputTokenMint outputTokenMint) = Some pairRoutes"
  shows "findBestRoutes ext inputTokenMint outputTokenMint 0 amountIsInput walks pools
           userRoutingOptions =
         Some (Rejected (RejectedWith (FailureResult ZERO_INPUT_AMOUNT)))"
  using assms by (simp add: findBestRoutes_def routeSearch_def)

text \<open>
  Claim C2. The order of the two validations is the claimed one, but neither failure is
  the value the promise resolves with: a pair that is not in the pool graph (here A, C,
  with a zero amount) and a zero amount for a pair that is in the graph (A, B) both end in
  \<^verbatim>\<open>Promise.reject\<close>, so that the caller's \<^verbatim>\<open>await\<close> throws the failure object.
\<close>

theorem findBestRoutes_validation_rejects:
  "findBestRoutes (exCollaborators []) ''A'' ''C'' 0 True (map_of [(''A/B'', [[''p3'']])])
      exPools (exOptions 50 50)
     = Some (Rejected (RejectedWith (FailureResult ROUTE_DOES_NOT_EXIST))) \<and>
   findBestRoutes (exCollaborators []) ''A'' ''B'' 0 True (map_of [(''A/B'', [[''p3'']])])
      exPools (exOptions 50 50)
     = Some (Rejected (RejectedWith (FailureResult ZERO_INPUT_AMOUNT))) \<and>
   findBestRoutes (exCollaborators []) ''A'' ''C'' 0 True (map_of [(''A/B'', [[''p3'']])])
      exPools (exOptions 50 50)
     \<noteq> Some (Resolved (FailureResult ROUTE_DOES_NOT_EXIST))"
  by (simp add: findBestRoutes_def routeSearch_def exCollaborators_fields)

section \<open>The fixed side of a route quote\<close>

lemma categorizeBody_fixed_side:
  assumes "categorizeBody tradeAmount amountIsInput pct slot st = Inr st'"
    and "\<forall>q \<in> set (fst st). (if amountIsInput then RouteQuote.amountIn q else RouteQuote.amountOut q) = tradeAmount"
  shows "\<forall>q \<in> set (fst st'). (if amountIsInput then RouteQuote.amountIn q else RouteQuote.amountOut q) = tradeAmount"
  using assms
  by (auto simp: categorizeBody_def Let_def split: option.splits if_splits list.splits)

text \<open>
  Claim C1. \<^verbatim>\<open>categorizeQuotes\<close> is called with the total trade amount and writes it on
  the fixed side of every route quote, in every bucket. For a trade of 1000 in steps of
  50 over the one-hop route \<open>p3\<close>, the quote of bucket 50 carries \<^verbatim>\<open>amountIn\<close> 1000 although
  its slice, and the \<^verbatim>\<open>amountIn\<close> of its only hop, is 500; the floating side 500 is the
  \<^verbatim>\<open>amountOut\<close> of the last hop. Each quote is listed as \<open>(amountIn, amountOut)\<close> with the
  \<open>(amountIn, amountOut)\<close> of its hops.
\<close>

theorem categorizeQuotes_fixed_side_is_total:
  "(case hopLoop (exCollaborators []) ''A'' ''B'' exPools [[''p3'']] [50, 100] [500, 1000] True of
      Inl e \<Rightarrow> []
    | Inr quoteMap \<Rightarrow>
        (case categorizeQuotes 1000 True quoteMap of
           Inl e \<Rightarrow> []
         | Inr (cleanedQuoteMap, failures) \<Rightarrow>
             map (\<lambda>(p, qs).
                    (p, map (\<lambda>q. ((RouteQuote.amountIn q, RouteQuote.amountOut q),
                                   map (\<lambda>h. case h of Success s \<Rightarrow> (Hop.amountIn s, Hop.amountOut s)
                                                     | Failure e \<Rightarrow> (0, 0))
                                     (RouteQuote.calculatedHops q))) qs))
               cleanedQuoteMap))
   = [(50, [((1000, 500), [(500, 500)])]), (100, [((1000, 1000), [(1000, 1000)])])]"
  by code_simp

section \<open>The final list is not truncated\<close>

lemma mset_concat_map_cong:
  assumes "mset xs = mset ys"
  shows "mset (concat (map g xs)) = mset (concat (map g ys))"
proof -
  have "mset (concat (map g zs)) = (\<Sum>x\<in>#mset zs. mset (g x))" for zs
    by (induction zs) simp_all
  then show ?thesis using assms by simp
qed

lemma map_of_map_value:
  "map_of (map (\<lambda>(p, qs). (p, g qs)) m) k = map_option g (map_of m k)"
  by (induction m) auto

lemma pruneQuoteMap_sorted_bucket:
  "map_of (snd (pruneQuoteMap quoteMap pruneN amountIsInput)) k =
     map_option (jsSort (sortFn amountIsInput)) (map_of quoteMap k)"
  by (simp add: pruneQuoteMap_def Let_def map_of_map_value)

lemma mset_getSingleHopSplit_pruned:
  "mset (getSingleHopSplit (snd (pruneQuoteMap quoteMap pruneN amountIsInput))) =
   mset (getSingleHopSplit quoteMap)"
proof (cases "map_of quoteMap 100")
  case None
  then show ?thesis by (simp add: getSingleHopSplit_def pruneQuoteMap_sorted_bucket)
next
  case (Some fullFlow)
  have "mset (jsSort (sortFn amountIsInput) fullFlow) = mset fullFlow" by (rule mset_jsSort)
  from mset_concat_map_cong[OF this] Some show ?thesis
    by (simp add: getSingleHopSplit_def pruneQuoteMap_sorted_bucket)
qed

lemma getSingleHopSplit_member:
  assumes "map_of quoteMap 100 = Some fullFlow" "f \<in> set fullFlow"
    and "RouteQuote.calculatedHops f = [Success oneHop]"
  shows "\<lparr> quotes = [f], TradeRoute.percent = 100,
           totalIn = Hop.amountIn oneHop, totalOut = Hop.amountOut oneHop \<rparr>
         \<in> set (getSingleHopSplit quoteMap)"
  using assms by (auto simp: getSingleHopSplit_def intro!: bexI[of _ f])

text \<open>
  The single-hop candidates are exactly the one-hop quotes of the 100 bucket whose hop
  succeeded: a quote with more than one hop, or with a failed or unset hop, gives none.
\<close>

lemma getSingleHopSplit_exact:
  "t \<in> set (getSingleHopSplit quoteMap) \<longleftrightarrow>
     (\<exists>fullFlow f oneHop. map_of quoteMap 100 = Some fullFlow \<and> f \<in> set fullFlow \<and>
        RouteQuote.calculatedHops f = [Success oneHop] \<and>
        t = \<lparr> quotes = [f], TradeRoute.percent = 100,
              totalIn = Hop.amountIn oneHop, totalOut = Hop.amountOut oneHop \<rparr>)"
proof
  assume a: "t \<in> set (getSingleHopSplit quoteMap)"
  show "\<exists>fullFlow f oneHop. map_of quoteMap 100 = Some fullFlow \<and> f \<in> set fullFlow \<and>
        RouteQuote.calculatedHops f = [Success oneHop] \<and>
        t = \<lparr> quotes = [f], TradeRoute.percent = 100,
              totalIn = Hop.amountIn oneHop, totalOut = Hop.amountOut oneHop \<rparr>"
  proof (cases "map_of quoteMap 100")
    case None
    with a show ?thesis by (simp add: getSingleHopSplit_def)
  next
    case (Some fullFlow)
    with a have "\<exists>f \<in> set fullFlow. t \<in> set (case RouteQuote.calculatedHops f of
                        [Success oneHop] \<Rightarrow>
                          [\<lparr> quotes = [f], TradeRoute.percent = 100,
                             totalIn = Hop.amountIn oneHop, totalOut = Hop.amountOut oneHop \<rparr>]
                      | _ \<Rightarrow> [])"
      by (simp add: getSingleHopSplit_def)
    then obtain f where f: "f \<in> set fullFlow" and
      t: "t \<in> set (case RouteQuote.calculatedHops f of
                        [Success oneHop] \<Rightarrow>
                          [\<lparr> quotes = [f], TradeRoute.percent = 100,
                             totalIn = Hop.amountIn oneHop, totalOut = Hop.amountOut oneHop \<rparr>]
                      | _ \<Rightarrow> [])"
      by (rule bexE)
    from t have "\<exists>oneHop. [Success oneHop] = RouteQuote.calculatedHops f \<and>
        t = \<lparr> quotes = [f], TradeRoute.percent = 100,
              totalIn = Hop.amountIn oneHop, totalOut = Hop.amountOut oneHop \<rparr>"
      by (auto split: list.splits HopResult.splits)
    then obtain oneHop where h': "[Success oneHop] = RouteQuote.calculatedHops f" and
      teq: "t = \<lparr> quotes = [f], TradeRoute.percent = 100,
              totalIn = Hop.amountIn oneHop, totalOut = Hop.amountOut oneHop \<rparr>"
      by blast
    note h = h'[symmetric]
    from teq Some f h show ?thesis by blast
  qed
next
  assume "\<exists>fullFlow f oneHop. map_of quoteMap 100 = Some fullFlow \<and> f \<in> set fullFlow \<and>
        RouteQuote.calculatedHops f = [Success oneHop] \<and>
        t = \<lparr> quotes = [f], TradeRoute.percent = 100,
              totalIn = Hop.amountIn oneHop, totalOut = Hop.amountOut oneHop \<rparr>"
  then show "t \<in> set (getSingleHopSplit quoteMap)"
    using getSingleHopSplit_member by blast
qed

lemma sorted_jsSort_key:
  fixes key :: "'a \<Rightarrow> int"
  assumes "\<forall>x y. c x y \<le> 0 \<longleftrightarrow> key x \<le> key y"
  shows "sorted (map key (jsSort c xs))"
proof -
  have "jsSort c xs = sort_key key xs" by (rule jsSort_sort_key) (use assms in blast)
  then show ?thesis by simp
qed

text \<open>
  Lines 134 to 137. The list \<^verbatim>\<open>bestRoutes\<close> is the list of the ranker (computed from the
  pruned map and \<^verbatim>\<open>numTopRoutes\<close>) followed by the single-hop candidates of the 100 bucket
  of the unpruned map, sorted by the comparator of the ranker; its length is the sum of
  the two lengths. Every one-hop quote of the 100 bucket whose hop succeeded is in the
  list, whatever the pruning kept, and the list is in the order of any key that the
  comparator compares.
\<close>

lemma rankRoutes_concatenation:
  fixes key :: "TradeRoute \<Rightarrow> int"
  shows
  "mset (rankRoutes ext amountIsInput routingOptions cleanedQuoteMap) =
     mset (getRankedRoutes ext
             (fst (pruneQuoteMap cleanedQuoteMap (RoutingOptions.numTopPartialQuotes routingOptions)
                     amountIsInput))
             amountIsInput (RoutingOptions.numTopRoutes routingOptions)
             (RoutingOptions.maxSplits routingOptions))
     + mset (getSingleHopSplit cleanedQuoteMap) \<and>
   length (rankRoutes ext amountIsInput routingOptions cleanedQuoteMap) =
     length (getRankedRoutes ext
               (fst (pruneQuoteMap cleanedQuoteMap (RoutingOptions.numTopPartialQuotes routingOptions)
                       amountIsInput))
               amountIsInput (RoutingOptions.numTopRoutes routingOptions)
               (RoutingOptions.maxSplits routingOptions))
     + length (getSingleHopSplit cleanedQuoteMap) \<and>
   (map_of cleanedQuoteMap 100 = Some fullFlow \<and> f \<in> set fullFlow \<and>
    RouteQuote.calculatedHops f = [Success oneHop] \<longrightarrow>
      \<lparr> quotes = [f], TradeRoute.percent = 100,
        totalIn = Hop.amountIn oneHop, totalOut = Hop.amountOut oneHop \<rparr>
      \<in> set (rankRoutes ext amountIsInput routingOptions cleanedQuoteMap)) \<and>
   ((\<forall>x y. getRouteCompareFn ext amountIsInput x y \<le> 0 \<longleftrightarrow> key x \<le> key y) \<longrightarrow>
      sorted (map key (rankRoutes ext amountIsInput routingOptions cleanedQuoteMap)))"
proof -
  let ?ranked = "getRankedRoutes ext
             (fst (pruneQuoteMap cleanedQuoteMap (RoutingOptions.numTopPartialQuotes routingOptions)
                     amountIsInput))
             amountIsInput (RoutingOptions.numTopRoutes routingOptions)
             (RoutingOptions.maxSplits routingOptions)"
  have m: "mset (rankRoutes ext amountIsInput routingOptions cleanedQuoteMap) =
             mset ?ranked + mset (getSingleHopSplit cleanedQuoteMap)"
    by (simp add: rankRoutes_def Let_def mset_jsSort mset_getSingleHopSplit_pruned)
  from m have l: "length (rankRoutes ext amountIsInput routingOptions cleanedQuoteMap) =
             length ?ranked + length (getSingleHopSplit cleanedQuoteMap)"
    by (metis size_mset size_union)
  have mem: "\<lparr> quotes = [f], TradeRoute.percent = 100,
        totalIn = Hop.amountIn oneHop, totalOut = Hop.amountOut oneHop \<rparr>
      \<in> set (rankRoutes ext amountIsInput routingOptions cleanedQuoteMap)"
    if "map_of cleanedQuoteMap 100 = Some fullFlow" "f \<in> set fullFlow"
       "RouteQuote.calculatedHops f = [Success oneHop]"
  proof -
    from getSingleHopSplit_member[OF that]
    have "\<lparr> quotes = [f], TradeRoute.percent = 100,
        totalIn = Hop.amountIn oneHop, totalOut = Hop.amountOut oneHop \<rparr>
      \<in># mset ?ranked + mset (getSingleHopSplit cleanedQuoteMap)" by simp
    then show ?thesis unfolding m[symmetric] by simp
  qed
  have srt: "sorted (map key (rankRoutes ext amountIsInput routingOptions cleanedQuoteMap))"
    if "\<forall>x y. getRouteCompareFn ext amountIsInput x y \<le> 0 \<longleftrightarrow> key x \<le> key y"
    unfolding rankRoutes_def Let_def by (rule sorted_jsSort_key[OF that])
  from m l mem srt show ?thesis by blast
qed


lemma exCompare_key:
  "\<forall>x y. getRouteCompareFn (exCollaborators []) True x y \<le> 0 \<longleftrightarrow>
           - int (totalOut x) \<le> - int (totalOut y)"
  by (simp add: exCollaborators_def exCompare_def cmp_def)

lemma pruned_example:
  "fst (pruneQuoteMap [(100, [exQuote ''p3'' 990, exQuote ''p4'' 980])] 1 True) =
     [(100, [exQuote ''p3'' 990])]"
  by code_simp

lemma ranked_example_length:
  "length (getRankedRoutes (exCollaborators [])
             (fst (pruneQuoteMap [(100, [exQuote ''p3'' 990, exQuote ''p4'' 980])] 1 True))
             True 1 3) = 1 \<and>
   length (getSingleHopSplit [(100, [exQuote ''p3'' 990, exQuote ''p4'' 980])]) = 2"
  by code_simp

lemma rankRoutes_concatenation_example:
  "map_of [(100, [exQuote ''p3'' 990, exQuote ''p4'' 980])] 100 =
     Some [exQuote ''p3'' 990, exQuote ''p4'' 980] \<and>
   exQuote ''p4'' 980 \<in> set [exQuote ''p3'' 990, exQuote ''p4'' 980] \<and>
   RouteQuote.calculatedHops (exQuote ''p4'' 980) = [Success (exHop ''p4'' 980)] \<and>
   (\<forall>x y. getRouteCompareFn (exCollaborators []) True x y \<le> 0 \<longleftrightarrow>
            - int (totalOut x) \<le> - int (totalOut y)) \<and>
   fst (pruneQuoteMap [(100, [exQuote ''p3'' 990, exQuote ''p4'' 980])] 1 True) =
     [(100, [exQuote ''p3'' 990])] \<and>
   exSingle ''p4'' 980 \<in> set (rankRoutes (exCollaborators []) True
        \<lparr> RoutingOptions.percentIncrement = 50, RoutingOptions.numTopRoutes = 1,
          RoutingOptions.numTopPartialQuotes = 1, RoutingOptions.maxSplits = 3 \<rparr>
        [(100, [exQuote ''p3'' 990, exQuote ''p4'' 980])]) \<and>
   length (rankRoutes (exCollaborators []) True
        \<lparr> RoutingOptions.percentIncrement = 50, RoutingOptions.numTopRoutes = 1,
          RoutingOptions.numTopPartialQuotes = 1, RoutingOptions.maxSplits = 3 \<rparr>
        [(100, [exQuote ''p3'' 990, exQuote ''p4'' 980])]) = 3 \<and>
   sorted (map (\<lambda>t. - int (totalOut t)) (rankRoutes (exCollaborators []) True
        \<lparr> RoutingOptions.percentIncrement = 50, RoutingOptions.numTopRoutes = 1,
          RoutingOptions.numTopPartialQuotes = 1, RoutingOptions.maxSplits = 3 \<rparr>
        [(100, [exQuote ''p3'' 990, exQuote ''p4'' 980])]))"
proof -
  have hops: "RouteQuote.calculatedHops (exQuote ''p4'' 980) = [Success (exHop ''p4'' 980)]"
    by (simp add: exQuote_def)
  have single: "exSingle ''p4'' 980 =
      \<lparr> quotes = [exQuote ''p4'' 980], TradeRoute.percent = 100,
        totalIn = Hop.amountIn (exHop ''p4'' 980), totalOut = Hop.amountOut (exHop ''p4'' 980) \<rparr>"
    by (simp add: exSingle_def exHop_def)
  note t = rankRoutes_concatenation[of "exCollaborators []" True
      "\<lparr> RoutingOptions.percentIncrement = 50, RoutingOptions.numTopRoutes = 1,
         RoutingOptions.numTopPartialQuotes = 1, RoutingOptions.maxSplits = 3 \<rparr>"
      "[(100, [exQuote ''p3'' 990, exQuote ''p4'' 980])]"
      "[exQuote ''p3'' 990, exQuote ''p4'' 980]" "exQuote ''p4'' 980" "exHop ''p4'' 980"
      "\<lambda>t. - int (totalOut t)"]
  from t hops exCompare_key pruned_example ranked_example_length single
  show ?thesis by simp
qed

lemma two_single_hops_staged:
  "(case hopLoop (exCollaborators []) ''A'' ''B'' exPools [[''p3''], [''p4'']]
           [50, 100] [500, 1000] True of
      Inl e \<Rightarrow> None
    | Inr quoteMap \<Rightarrow>
        (case categorizeQuotes 1000 True quoteMap of
           Inl e \<Rightarrow> None
         | Inr (cleanedQuoteMap, failures) \<Rightarrow>
             Some (length (rankRoutes (exCollaborators []) True (mergeOptions (exOptions 50 1))
                             cleanedQuoteMap))))
   = Some 3"
  by code_simp

text \<open>
  Claim C8. The returned list is stated to hold at most \<^verbatim>\<open>numTopRoutes\<close> routes, and the
  option is documented (lines 19 to 22) as the number of routes to return. The code
  passes \<^verbatim>\<open>numTopRoutes\<close> to the ranker only; the single-hop candidates are appended to the
  ranker's list afterwards and nothing truncates the sorted concatenation. With
  \<^verbatim>\<open>numTopRoutes\<close> 1 and the two one-hop routes \<open>p3\<close> and \<open>p4\<close>, the call resolves with a
  success whose list has three routes: the one the ranker kept and both single-hop
  candidates.
\<close>

theorem findBestRoutes_exceeds_numTopRoutes:
  "map_option length
     (bestRoutesOf (findBestRoutes (exCollaborators []) ''A'' ''B'' 1000 True
        (map_of [(''A/B'', [[''p3''], [''p4'']])]) exPools (exOptions 50 1))) = Some 3 \<and>
   RoutingOptions.numTopRoutes (mergeOptions (exOptions 50 1)) = 1"
proof -
  from two_single_hops_staged obtain quoteMap cleanedQuoteMap failures where
    h: "hopLoop (exCollaborators []) ''A'' ''B'' exPools [[''p3''], [''p4'']]
          [50, 100] [500, 1000] True = Inr quoteMap" and
    c: "categorizeQuotes 1000 True quoteMap = Inr (cleanedQuoteMap, failures)" and
    l: "length (rankRoutes (exCollaborators []) True (mergeOptions (exOptions 50 1))
                  cleanedQuoteMap) = 3"
    by (auto split: sum.splits prod.splits)
  from l have ne: "rankRoutes (exCollaborators []) True (mergeOptions (exOptions 50 1))
                     cleanedQuoteMap \<noteq> []" by auto
  show ?thesis
    using l ne
    by (simp add: findBestRoutes_def routeSearch_def conclude_def exCollaborators_fields
          exOptions_merged slices_1000_by_50 h c)
qed

section \<open>Loops and containers\<close>

lemma forEach_append:
  "forEach body (xs @ ys) s =
     (case forEach body xs s of Inl e \<Rightarrow> Inl e | Inr s' \<Rightarrow> forEach body ys s')"
  by (induction xs arbitrary: s) (auto split: sum.splits)

lemma forEach_invariant:
  assumes "forEach body xs s = Inr s'" and "P s"
    and "\<And>x t t'. x \<in> set xs \<Longrightarrow> P t \<Longrightarrow> body x t = Inr t' \<Longrightarrow> P t'"
  shows "P s'"
  using assms
proof (induction xs arbitrary: s)
  case Nil
  then show ?case by simp
next
  case (Cons x xs)
  from Cons.prems(1) obtain t where t: "body x s = Inr t" and rest: "forEach body xs t = Inr s'"
    by (auto split: sum.splits)
  have "P t" using Cons.prems(2,3) t by auto
  then show ?case using Cons.IH[OF rest] Cons.prems(3) by auto
qed

lemma map_of_setKey: "map_of (setKey k v m) = (map_of m)(k \<mapsto> v)"
  by (induction m) (auto simp: fun_eq_iff)

lemma jsGet_jsSet: "jsGet (jsSet xs i v) j = (if j = i then Some v else jsGet xs j)"
  by (auto simp: jsGet_def jsSet_def nth_append)

lemma length_jsSet: "length (jsSet xs i v) = max (length xs) (Suc i)"
  by (auto simp: jsSet_def)

lemma jsSet_inside: "i < length xs \<Longrightarrow> jsSet xs i v = xs[i := Some v]"
  by (simp add: jsSet_def)

lemma jsGet_inside: "i < length xs \<Longrightarrow> jsGet xs i = xs ! i"
  by (simp add: jsGet_def)

lemma jsGet_Some_length: "jsGet xs i = Some v \<Longrightarrow> i < length xs"
  by (simp add: jsGet_def split: if_splits)

section \<open>One route of the batch builder\<close>

lemma routeBody_step:
  assumes "routeBody inputTokenMint outputTokenMint pools hop a pct amt (ri, r) (us, b) = Inr (us', b')"
  shows "\<exists>new. us' = us @ new \<and> length new \<le> 1 \<and>
           (\<forall>u \<in> set new. QuoteUpdate.percent u = pct \<and> hopIndex u = hop \<and> routeIndex u = ri \<and>
                          quoteIndex u = length us \<and>
                          wellBuilt inputTokenMint outputTokenMint a hop amt (jsGet b ri) r u) \<and>
           (due a hop (jsGet b ri) r \<longrightarrow> new \<noteq> []) \<and>
           (\<not> routeSkipped a hop r \<and> \<not> startingRouteEval a hop r \<longrightarrow> jsGet b ri \<noteq> None) \<and>
           b' = (if \<not> routeSkipped a hop r \<and> startingRouteEval a hop r
                 then jsSet b ri (freshQuote pct r) else b)"
proof (cases "routeSkipped a hop r")
  case True
  then show ?thesis using assms by (simp add: routeBody_def due_def)
next
  case ns: False
  show ?thesis
  proof (cases "startingRouteEval a hop r")
    case True
    with assms ns have "\<exists>u. us' = us @ [u] \<and> QuoteUpdate.percent u = pct \<and> routeIndex u = ri \<and>
         hopIndex u = hop \<and> quoteIndex u = length us \<and>
         QuoteRequest.tokenAmount (request u) = amt \<and>
         tradeTokenMint (request u) = (if a then inputTokenMint else outputTokenMint)"
      and "b' = jsSet b ri (freshQuote pct r)"
      by (auto simp: routeBody_def Let_def freshQuote_def jsGet_jsSet split: option.splits)
    then show ?thesis using ns True by (auto simp: wellBuilt_def)
  next
    case False
    with assms ns obtain cq where cq: "jsGet b ri = Some cq" and b': "b' = b"
      by (auto simp: routeBody_def Let_def split: option.splits HopResult.splits)
    show ?thesis
    proof (cases "\<exists>h. lastHopOf a hop (InternalRouteQuote.calculatedHops cq) = Some (Success h)")
      case True
      then obtain h where h: "lastHopOf a hop (InternalRouteQuote.calculatedHops cq) = Some (Success h)"
        by blast
      with assms ns False cq have "\<exists>u. us' = us @ [u] \<and> QuoteUpdate.percent u = pct \<and>
         routeIndex u = ri \<and> hopIndex u = hop \<and> quoteIndex u = length us \<and>
         QuoteRequest.tokenAmount (request u) = (if a then Hop.amountOut h else Hop.amountIn h) \<and>
         tradeTokenMint (request u) = (if a then Hop.outputMint h else Hop.inputMint h)"
        by (auto simp: routeBody_def Let_def split: option.splits)
      then show ?thesis using ns False cq h b' by (auto simp: wellBuilt_def)
    next
      case nh: False
      with assms ns False cq have "us' = us"
        by (auto simp: routeBody_def Let_def split: option.splits HopResult.splits)
      then show ?thesis using ns False cq nh b' by (simp add: due_def)
    qed
  qed
qed


section \<open>The loop over the routes of one percentage\<close>

lemma routesLoop_effect:
  assumes "forEach (routeBody inputTokenMint outputTokenMint pools hop a pct amt)
             (enumerate k rs) (us, b) = Inr (us', b')"
  shows "\<exists>new. us' = us @ new \<and>
     (\<forall>m<length new. quoteIndex (new ! m) = length us + m) \<and>
     (\<forall>u \<in> set new. QuoteUpdate.percent u = pct \<and> hopIndex u = hop \<and>
          k \<le> routeIndex u \<and> routeIndex u < k + length rs \<and>
          wellBuilt inputTokenMint outputTokenMint a hop amt (jsGet b (routeIndex u))
            (rs ! (routeIndex u - k)) u) \<and>
     sorted_wrt (<) (map routeIndex new) \<and>
     (\<forall>j. k \<le> j \<and> j < k + length rs \<and> due a hop (jsGet b j) (rs ! (j - k)) \<longrightarrow>
          (\<exists>u \<in> set new. routeIndex u = j)) \<and>
     (\<forall>j. k \<le> j \<and> j < k + length rs \<and> \<not> routeSkipped a hop (rs ! (j - k)) \<and>
          \<not> startingRouteEval a hop (rs ! (j - k)) \<longrightarrow> jsGet b j \<noteq> None) \<and>
     (\<forall>j. jsGet b' j =
          (if k \<le> j \<and> j < k + length rs \<and> \<not> routeSkipped a hop (rs ! (j - k)) \<and>
              startingRouteEval a hop (rs ! (j - k))
           then Some (freshQuote pct (rs ! (j - k))) else jsGet b j)) \<and>
     (k + length rs \<le> length b \<longrightarrow> length b' = length b)"
  using assms
proof (induction rs arbitrary: k us b)
  case Nil
  then show ?case by auto
next
  case (Cons r rs)
  from Cons.prems obtain us1 b1 where
    one: "routeBody inputTokenMint outputTokenMint pools hop a pct amt (k, r) (us, b) = Inr (us1, b1)"
    and rest: "forEach (routeBody inputTokenMint outputTokenMint pools hop a pct amt)
                 (enumerate (Suc k) rs) (us1, b1) = Inr (us', b')"
    by (auto split: sum.splits)
  from routeBody_step[OF one] obtain new1 where
    u1: "us1 = us @ new1" and len1: "length new1 \<le> 1" and
    f1: "\<forall>u \<in> set new1. QuoteUpdate.percent u = pct \<and> hopIndex u = hop \<and> routeIndex u = k \<and>
            quoteIndex u = length us \<and>
            wellBuilt inputTokenMint outputTokenMint a hop amt (jsGet b k) r u" and
    d1: "due a hop (jsGet b k) r \<longrightarrow> new1 \<noteq> []" and
    e1: "\<not> routeSkipped a hop r \<and> \<not> startingRouteEval a hop r \<longrightarrow> jsGet b k \<noteq> None" and
    b1: "b1 = (if \<not> routeSkipped a hop r \<and> startingRouteEval a hop r
               then jsSet b k (freshQuote pct r) else b)"
    by blast
  from Cons.IH[OF rest] obtain new2 where
    u2: "us' = us1 @ new2" and
    q2: "\<forall>m<length new2. quoteIndex (new2 ! m) = length us1 + m" and
    f2: "\<forall>u \<in> set new2. QuoteUpdate.percent u = pct \<and> hopIndex u = hop \<and>
          Suc k \<le> routeIndex u \<and> routeIndex u < Suc k + length rs \<and>
          wellBuilt inputTokenMint outputTokenMint a hop amt (jsGet b1 (routeIndex u))
            (rs ! (routeIndex u - Suc k)) u" and
    s2: "sorted_wrt (<) (map routeIndex new2)" and
    d2: "\<forall>j. Suc k \<le> j \<and> j < Suc k + length rs \<and> due a hop (jsGet b1 j) (rs ! (j - Suc k)) \<longrightarrow>
          (\<exists>u \<in> set new2. routeIndex u = j)" and
    e2: "\<forall>j. Suc k \<le> j \<and> j < Suc k + length rs \<and> \<not> routeSkipped a hop (rs ! (j - Suc k)) \<and>
          \<not> startingRouteEval a hop (rs ! (j - Suc k)) \<longrightarrow> jsGet b1 j \<noteq> None" and
    g2: "\<forall>j. jsGet b' j =
          (if Suc k \<le> j \<and> j < Suc k + length rs \<and> \<not> routeSkipped a hop (rs ! (j - Suc k)) \<and>
              startingRouteEval a hop (rs ! (j - Suc k))
           then Some (freshQuote pct (rs ! (j - Suc k))) else jsGet b1 j)" and
    l2: "Suc k + length rs \<le> length b1 \<longrightarrow> length b' = length b1"
    by blast
  have other: "jsGet b1 j = jsGet b j" if "j \<noteq> k" for j
    using that by (simp add: b1 jsGet_jsSet)
  have at_k: "jsGet b1 k = (if \<not> routeSkipped a hop r \<and> startingRouteEval a hop r
                            then Some (freshQuote pct r) else jsGet b k)"
    by (simp add: b1 jsGet_jsSet)
  have nth_later: "(r # rs) ! (j - k) = rs ! (j - Suc k)" if "Suc k \<le> j" for j
    using that by (simp add: nth_Cons split: nat.splits) (metis Suc_diff_Suc Suc_le_lessD nat.inject)
  let ?new = "new1 @ new2"
  have c1: "us' = us @ ?new" using u1 u2 by simp
  have c2: "\<forall>m<length ?new. quoteIndex (?new ! m) = length us + m"
  proof (intro allI impI)
    fix m assume m: "m < length ?new"
    show "quoteIndex (?new ! m) = length us + m"
    proof (cases "m < length new1")
      case True
      then have "m = 0" using len1 by simp
      then show ?thesis using True f1 by (cases new1) (auto simp: nth_append)
    next
      case False
      then have "?new ! m = new2 ! (m - length new1)" by (simp add: nth_append)
      moreover have "m - length new1 < length new2" using m False by simp
      ultimately show ?thesis using q2 u1 False by simp
    qed
  qed
  have c3: "\<forall>u \<in> set ?new. QuoteUpdate.percent u = pct \<and> hopIndex u = hop \<and>
          k \<le> routeIndex u \<and> routeIndex u < k + length (r # rs) \<and>
          wellBuilt inputTokenMint outputTokenMint a hop amt (jsGet b (routeIndex u))
            ((r # rs) ! (routeIndex u - k)) u"
  proof
    fix u assume "u \<in> set ?new"
    then consider "u \<in> set new1" | "u \<in> set new2" by auto
    then show "QuoteUpdate.percent u = pct \<and> hopIndex u = hop \<and>
          k \<le> routeIndex u \<and> routeIndex u < k + length (r # rs) \<and>
          wellBuilt inputTokenMint outputTokenMint a hop amt (jsGet b (routeIndex u))
            ((r # rs) ! (routeIndex u - k)) u"
    proof cases
      case 1
      then show ?thesis using f1 by auto
    next
      case 2
      with f2 have *: "QuoteUpdate.percent u = pct" "hopIndex u = hop" "Suc k \<le> routeIndex u"
        "routeIndex u < Suc k + length rs"
        "wellBuilt inputTokenMint outputTokenMint a hop amt (jsGet b1 (routeIndex u))
            (rs ! (routeIndex u - Suc k)) u" by auto
      from *(3) have "routeIndex u \<noteq> k" by simp
      with other have "jsGet b1 (routeIndex u) = jsGet b (routeIndex u)" by simp
      with * nth_later[OF *(3)] show ?thesis by simp
    qed
  qed
  have s1: "sorted_wrt (<) (map routeIndex new1)"
    using len1 by (cases new1) auto
  have c4: "sorted_wrt (<) (map routeIndex ?new)"
    using s1 s2 f1 f2 by (auto simp: sorted_wrt_append)
  have c5: "\<forall>j. k \<le> j \<and> j < k + length (r # rs) \<and> due a hop (jsGet b j) ((r # rs) ! (j - k)) \<longrightarrow>
          (\<exists>u \<in> set ?new. routeIndex u = j)"
  proof (intro allI impI)
    fix j assume j: "k \<le> j \<and> j < k + length (r # rs) \<and> due a hop (jsGet b j) ((r # rs) ! (j - k))"
    show "\<exists>u \<in> set ?new. routeIndex u = j"
    proof (cases "j = k")
      case True
      with j d1 have "new1 \<noteq> []" by simp
      then obtain u where "u \<in> set new1" by (cases new1) auto
      with f1 True show ?thesis by auto
    next
      case False
      with j have sk: "Suc k \<le> j" by simp
      from j False sk have "due a hop (jsGet b1 j) (rs ! (j - Suc k))"
        using other[OF False] nth_later[OF sk] by simp
      with d2 sk j show ?thesis by auto
    qed
  qed
  have c6: "\<forall>j. k \<le> j \<and> j < k + length (r # rs) \<and> \<not> routeSkipped a hop ((r # rs) ! (j - k)) \<and>
          \<not> startingRouteEval a hop ((r # rs) ! (j - k)) \<longrightarrow> jsGet b j \<noteq> None"
  proof (intro allI impI)
    fix j assume j: "k \<le> j \<and> j < k + length (r # rs) \<and> \<not> routeSkipped a hop ((r # rs) ! (j - k)) \<and>
          \<not> startingRouteEval a hop ((r # rs) ! (j - k))"
    show "jsGet b j \<noteq> None"
    proof (cases "j = k")
      case True
      with j e1 show ?thesis by simp
    next
      case False
      with j have sk: "Suc k \<le> j" by simp
      with j e2 nth_later[OF sk] have "jsGet b1 j \<noteq> None" by simp
      with other[OF False] show ?thesis by simp
    qed
  qed
  have c7: "\<forall>j. jsGet b' j =
          (if k \<le> j \<and> j < k + length (r # rs) \<and> \<not> routeSkipped a hop ((r # rs) ! (j - k)) \<and>
              startingRouteEval a hop ((r # rs) ! (j - k))
           then Some (freshQuote pct ((r # rs) ! (j - k))) else jsGet b j)"
  proof
    fix j
    show "jsGet b' j =
          (if k \<le> j \<and> j < k + length (r # rs) \<and> \<not> routeSkipped a hop ((r # rs) ! (j - k)) \<and>
              startingRouteEval a hop ((r # rs) ! (j - k))
           then Some (freshQuote pct ((r # rs) ! (j - k))) else jsGet b j)"
    proof (cases "j = k")
      case True
      then show ?thesis using g2 at_k by simp
    next
      case False
      show ?thesis
      proof (cases "Suc k \<le> j")
        case True
        then show ?thesis using g2 other[OF False] nth_later[OF True] by simp
      next
        case lt: False
        then show ?thesis using g2 other[OF False] False by simp
      qed
    qed
  qed
  have c8: "k + length (r # rs) \<le> length b \<longrightarrow> length b' = length b"
  proof
    assume le: "k + length (r # rs) \<le> length b"
    then have "length b1 = length b" by (simp add: b1 length_jsSet)
    with l2 le show "length b' = length b" by simp
  qed
  from c1 c2 c3 c4 c5 c6 c7 c8 show ?case by blast
qed

section \<open>The loop over the percentages\<close>

lemma due_cong:
  assumes "\<not> startingRouteEval a hop r \<Longrightarrow> e = e'"
  shows "due a hop e r = due a hop e' r"
  using assms by (auto simp: due_def)

lemma wellBuilt_cong:
  assumes "\<not> startingRouteEval a hop r \<Longrightarrow> e = e'"
  shows "wellBuilt i o' a hop amt e r u = wellBuilt i o' a hop amt e' r u"
  using assms by (auto simp: wellBuilt_def)

lemma entryAt_setKey:
  "entryAt (setKey p b m) q j = (if q = p then jsGet b j else entryAt m q j)"
  by (simp add: entryAt_def map_of_setKey)

lemma amountBody_effect:
  assumes "amountBody inputTokenMint outputTokenMint pools rs hop a (pct, amt) (us, qm) = Inr (us', qm')"
  shows "\<exists>new. us' = us @ new \<and>
     (\<forall>m<length new. quoteIndex (new ! m) = length us + m) \<and>
     (\<forall>u \<in> set new. QuoteUpdate.percent u = pct \<and> hopIndex u = hop \<and> routeIndex u < length rs \<and>
          wellBuilt inputTokenMint outputTokenMint a hop amt (entryAt qm pct (routeIndex u))
            (rs ! routeIndex u) u) \<and>
     sorted_wrt (<) (map routeIndex new) \<and>
     (\<forall>j. j < length rs \<and> due a hop (entryAt qm pct j) (rs ! j) \<longrightarrow>
          (\<exists>u \<in> set new. routeIndex u = j)) \<and>
     (\<forall>j. j < length rs \<and> \<not> routeSkipped a hop (rs ! j) \<and> \<not> startingRouteEval a hop (rs ! j) \<longrightarrow>
          entryAt qm pct j \<noteq> None) \<and>
     (\<forall>p j. entryAt qm' p j =
          (if p = pct \<and> j < length rs \<and> \<not> routeSkipped a hop (rs ! j) \<and>
              startingRouteEval a hop (rs ! j)
           then Some (freshQuote pct (rs ! j)) else entryAt qm p j)) \<and>
     dom (map_of qm') = insert pct (dom (map_of qm)) \<and>
     ((\<forall>p b. map_of qm p = Some b \<longrightarrow> length b = length rs) \<longrightarrow>
      (\<forall>p b. map_of qm' p = Some b \<longrightarrow> length b = length rs))"
proof -
  define b0 where "b0 = (case map_of qm pct of None \<Rightarrow> replicate (length rs) None | Some b \<Rightarrow> b)"
  have unfolded: "amountBody inputTokenMint outputTokenMint pools rs hop a (pct, amt) (us, qm) =
      (case forEach (routeBody inputTokenMint outputTokenMint pools hop a pct amt)
              (enumerate 0 rs) (us, b0) of
         Inl e \<Rightarrow> Inl e
       | Inr (quoteUpdates', bucket') \<Rightarrow> Inr (quoteUpdates', setKey pct bucket' qm))"
    unfolding b0_def amountBody_def Let_def fst_conv snd_conv ..
  obtain b' where
    loop: "forEach (routeBody inputTokenMint outputTokenMint pools hop a pct amt)
             (enumerate 0 rs) (us, b0) = Inr (us', b')" and
    qm': "qm' = setKey pct b' qm"
  proof (cases "forEach (routeBody inputTokenMint outputTokenMint pools hop a pct amt)
             (enumerate 0 rs) (us, b0)")
    case (Inl e)
    with assms unfolded show ?thesis by simp
  next
    case (Inr st)
    with assms unfolded that show ?thesis by (cases st) simp
  qed
  have get0: "jsGet b0 j = entryAt qm pct j" for j
    by (auto simp: b0_def entryAt_def jsGet_def split: option.splits)
  from routesLoop_effect[OF loop] obtain new where all:
    "us' = us @ new \<and>
     (\<forall>m<length new. quoteIndex (new ! m) = length us + m) \<and>
     (\<forall>u \<in> set new. QuoteUpdate.percent u = pct \<and> hopIndex u = hop \<and>
          0 \<le> routeIndex u \<and> routeIndex u < 0 + length rs \<and>
          wellBuilt inputTokenMint outputTokenMint a hop amt (jsGet b0 (routeIndex u))
            (rs ! (routeIndex u - 0)) u) \<and>
     sorted_wrt (<) (map routeIndex new) \<and>
     (\<forall>j. 0 \<le> j \<and> j < 0 + length rs \<and> due a hop (jsGet b0 j) (rs ! (j - 0)) \<longrightarrow>
          (\<exists>u \<in> set new. routeIndex u = j)) \<and>
     (\<forall>j. 0 \<le> j \<and> j < 0 + length rs \<and> \<not> routeSkipped a hop (rs ! (j - 0)) \<and>
          \<not> startingRouteEval a hop (rs ! (j - 0)) \<longrightarrow> jsGet b0 j \<noteq> None) \<and>
     (\<forall>j. jsGet b' j =
          (if 0 \<le> j \<and> j < 0 + length rs \<and> \<not> routeSkipped a hop (rs ! (j - 0)) \<and>
              startingRouteEval a hop (rs ! (j - 0))
           then Some (freshQuote pct (rs ! (j - 0))) else jsGet b0 j)) \<and>
     (0 + length rs \<le> length b0 \<longrightarrow> length b' = length b0)"
    by (rule exE)
  have n1: "us' = us @ new" using all by simp
  have n2: "\<forall>m<length new. quoteIndex (new ! m) = length us + m" using all by simp
  have n3: "\<forall>u \<in> set new. QuoteUpdate.percent u = pct \<and> hopIndex u = hop \<and>
          routeIndex u < length rs \<and>
          wellBuilt inputTokenMint outputTokenMint a hop amt (jsGet b0 (routeIndex u))
            (rs ! routeIndex u) u" using all by simp
  have n4: "sorted_wrt (<) (map routeIndex new)" using all by simp
  have n5: "\<forall>j. j < length rs \<and> due a hop (jsGet b0 j) (rs ! j) \<longrightarrow>
          (\<exists>u \<in> set new. routeIndex u = j)" using all by simp
  have n6: "\<forall>j. j < length rs \<and> \<not> routeSkipped a hop (rs ! j) \<and>
          \<not> startingRouteEval a hop (rs ! j) \<longrightarrow> jsGet b0 j \<noteq> None" using all by simp
  have n7: "\<forall>j. jsGet b' j =
          (if j < length rs \<and> \<not> routeSkipped a hop (rs ! j) \<and> startingRouteEval a hop (rs ! j)
           then Some (freshQuote pct (rs ! j)) else jsGet b0 j)" using all by simp
  have n8: "length rs \<le> length b0 \<longrightarrow> length b' = length b0" using all by simp
  have c3: "\<forall>u \<in> set new. QuoteUpdate.percent u = pct \<and> hopIndex u = hop \<and> routeIndex u < length rs \<and>
          wellBuilt inputTokenMint outputTokenMint a hop amt (entryAt qm pct (routeIndex u))
            (rs ! routeIndex u) u"
    using n3 by (simp add: get0)
  have c5: "\<forall>j. j < length rs \<and> due a hop (entryAt qm pct j) (rs ! j) \<longrightarrow>
          (\<exists>u \<in> set new. routeIndex u = j)"
    using n5 by (simp add: get0)
  have c6: "\<forall>j. j < length rs \<and> \<not> routeSkipped a hop (rs ! j) \<and> \<not> startingRouteEval a hop (rs ! j) \<longrightarrow>
          entryAt qm pct j \<noteq> None"
    using n6 by (simp add: get0)
  have c7: "\<forall>p j. entryAt qm' p j =
          (if p = pct \<and> j < length rs \<and> \<not> routeSkipped a hop (rs ! j) \<and>
              startingRouteEval a hop (rs ! j)
           then Some (freshQuote pct (rs ! j)) else entryAt qm p j)"
    using n7 by (simp add: qm' entryAt_setKey get0)
  have c8: "dom (map_of qm') = insert pct (dom (map_of qm))"
    by (simp add: qm' map_of_setKey)
  have c9: "(\<forall>p b. map_of qm p = Some b \<longrightarrow> length b = length rs) \<longrightarrow>
      (\<forall>p b. map_of qm' p = Some b \<longrightarrow> length b = length rs)"
  proof (intro impI allI)
    fix p b
    assume all: "\<forall>p b. map_of qm p = Some b \<longrightarrow> length b = length rs"
      and pb: "map_of qm' p = Some b"
    have "length b0 = length rs" using all by (auto simp: b0_def split: option.splits)
    with n8 have "length b' = length rs" by simp
    with all pb show "length b = length rs"
      by (auto simp: qm' map_of_setKey split: if_splits)
  qed
  from n1 n2 c3 n4 c5 c6 c7 c8 c9 show ?thesis by blast
qed


lemma build_effect:
  assumes "forEach (amountBody inputTokenMint outputTokenMint pools rs hop a) pas (us, qm) = Inr (us', qm')"
  shows "\<exists>new. us' = us @ new \<and>
     (\<forall>m<length new. quoteIndex (new ! m) = length us + m) \<and>
     (\<forall>u \<in> set new. hopIndex u = hop \<and> routeIndex u < length rs \<and>
          (\<exists>amt. (QuoteUpdate.percent u, amt) \<in> set pas \<and>
             wellBuilt inputTokenMint outputTokenMint a hop amt
               (entryAt qm (QuoteUpdate.percent u) (routeIndex u)) (rs ! routeIndex u) u)) \<and>
     (\<forall>p j. p \<in> fst ` set pas \<and> j < length rs \<and> due a hop (entryAt qm p j) (rs ! j) \<longrightarrow>
          (\<exists>u \<in> set new. QuoteUpdate.percent u = p \<and> routeIndex u = j)) \<and>
     (\<forall>p j. p \<in> fst ` set pas \<and> j < length rs \<and> \<not> routeSkipped a hop (rs ! j) \<and>
          \<not> startingRouteEval a hop (rs ! j) \<longrightarrow> entryAt qm p j \<noteq> None) \<and>
     (\<forall>p j. entryAt qm' p j =
          (if p \<in> fst ` set pas \<and> j < length rs \<and> \<not> routeSkipped a hop (rs ! j) \<and>
              startingRouteEval a hop (rs ! j)
           then Some (freshQuote p (rs ! j)) else entryAt qm p j)) \<and>
     dom (map_of qm') = dom (map_of qm) \<union> fst ` set pas \<and>
     ((\<forall>p b. map_of qm p = Some b \<longrightarrow> length b = length rs) \<longrightarrow>
      (\<forall>p b. map_of qm' p = Some b \<longrightarrow> length b = length rs)) \<and>
     (sorted_wrt (<) (map fst pas) \<longrightarrow> sorted_wrt listedBefore new)"
  using assms
proof (induction pas arbitrary: us qm)
  case Nil
  then show ?case by auto
next
  case (Cons pa pas)
  obtain pct amt where pa: "pa = (pct, amt)" by (cases pa)
  from Cons.prems obtain us1 qm1 where
    one: "amountBody inputTokenMint outputTokenMint pools rs hop a (pct, amt) (us, qm) = Inr (us1, qm1)"
    and rest: "forEach (amountBody inputTokenMint outputTokenMint pools rs hop a) pas (us1, qm1)
                 = Inr (us', qm')"
    by (auto simp: pa split: sum.splits)
  from amountBody_effect[OF one] obtain new1 where all1:
    "us1 = us @ new1 \<and>
     (\<forall>m<length new1. quoteIndex (new1 ! m) = length us + m) \<and>
     (\<forall>u \<in> set new1. QuoteUpdate.percent u = pct \<and> hopIndex u = hop \<and> routeIndex u < length rs \<and>
          wellBuilt inputTokenMint outputTokenMint a hop amt (entryAt qm pct (routeIndex u))
            (rs ! routeIndex u) u) \<and>
     sorted_wrt (<) (map routeIndex new1) \<and>
     (\<forall>j. j < length rs \<and> due a hop (entryAt qm pct j) (rs ! j) \<longrightarrow>
          (\<exists>u \<in> set new1. routeIndex u = j)) \<and>
     (\<forall>j. j < length rs \<and> \<not> routeSkipped a hop (rs ! j) \<and> \<not> startingRouteEval a hop (rs ! j) \<longrightarrow>
          entryAt qm pct j \<noteq> None) \<and>
     (\<forall>p j. entryAt qm1 p j =
          (if p = pct \<and> j < length rs \<and> \<not> routeSkipped a hop (rs ! j) \<and>
              startingRouteEval a hop (rs ! j)
           then Some (freshQuote pct (rs ! j)) else entryAt qm p j)) \<and>
     dom (map_of qm1) = insert pct (dom (map_of qm)) \<and>
     ((\<forall>p b. map_of qm p = Some b \<longrightarrow> length b = length rs) \<longrightarrow>
      (\<forall>p b. map_of qm1 p = Some b \<longrightarrow> length b = length rs))"
    by (rule exE)
  from Cons.IH[OF rest] obtain new2 where all2:
    "us' = us1 @ new2 \<and>
     (\<forall>m<length new2. quoteIndex (new2 ! m) = length us1 + m) \<and>
     (\<forall>u \<in> set new2. hopIndex u = hop \<and> routeIndex u < length rs \<and>
          (\<exists>amt. (QuoteUpdate.percent u, amt) \<in> set pas \<and>
             wellBuilt inputTokenMint outputTokenMint a hop amt
               (entryAt qm1 (QuoteUpdate.percent u) (routeIndex u)) (rs ! routeIndex u) u)) \<and>
     (\<forall>p j. p \<in> fst ` set pas \<and> j < length rs \<and> due a hop (entryAt qm1 p j) (rs ! j) \<longrightarrow>
          (\<exists>u \<in> set new2. QuoteUpdate.percent u = p \<and> routeIndex u = j)) \<and>
     (\<forall>p j. p \<in> fst ` set pas \<and> j < length rs \<and> \<not> routeSkipped a hop (rs ! j) \<and>
          \<not> startingRouteEval a hop (rs ! j) \<longrightarrow> entryAt qm1 p j \<noteq> None) \<and>
     (\<forall>p j. entryAt qm' p j =
          (if p \<in> fst ` set pas \<and> j < length rs \<and> \<not> routeSkipped a hop (rs ! j) \<and>
              startingRouteEval a hop (rs ! j)
           then Some (freshQuote p (rs ! j)) else entryAt qm1 p j)) \<and>
     dom (map_of qm') = dom (map_of qm1) \<union> fst ` set pas \<and>
     ((\<forall>p b. map_of qm1 p = Some b \<longrightarrow> length b = length rs) \<longrightarrow>
      (\<forall>p b. map_of qm' p = Some b \<longrightarrow> length b = length rs)) \<and>
     (sorted_wrt (<) (map fst pas) \<longrightarrow> sorted_wrt listedBefore new2)"
    by (rule exE)
  have f1: "\<forall>u \<in> set new1. QuoteUpdate.percent u = pct \<and> hopIndex u = hop \<and>
          routeIndex u < length rs \<and>
          wellBuilt inputTokenMint outputTokenMint a hop amt (entryAt qm pct (routeIndex u))
            (rs ! routeIndex u) u" using all1 by simp
  have d1: "\<forall>j. j < length rs \<and> due a hop (entryAt qm pct j) (rs ! j) \<longrightarrow>
          (\<exists>u \<in> set new1. routeIndex u = j)" using all1 by simp
  have x1: "\<forall>j. j < length rs \<and> \<not> routeSkipped a hop (rs ! j) \<and> \<not> startingRouteEval a hop (rs ! j) \<longrightarrow>
          entryAt qm pct j \<noteq> None" using all1 by simp
  have f2: "\<forall>u \<in> set new2. hopIndex u = hop \<and> routeIndex u < length rs \<and>
          (\<exists>t. (QuoteUpdate.percent u, t) \<in> set pas \<and>
             wellBuilt inputTokenMint outputTokenMint a hop t
               (entryAt qm1 (QuoteUpdate.percent u) (routeIndex u)) (rs ! routeIndex u) u)"
    using all2 by simp
  have d2: "\<forall>p j. p \<in> fst ` set pas \<and> j < length rs \<and> due a hop (entryAt qm1 p j) (rs ! j) \<longrightarrow>
          (\<exists>u \<in> set new2. QuoteUpdate.percent u = p \<and> routeIndex u = j)" using all2 by simp
  have x2: "\<forall>p j. p \<in> fst ` set pas \<and> j < length rs \<and> \<not> routeSkipped a hop (rs ! j) \<and>
          \<not> startingRouteEval a hop (rs ! j) \<longrightarrow> entryAt qm1 p j \<noteq> None" using all2 by simp
  have e1: "entryAt qm1 p j =
          (if p = pct \<and> j < length rs \<and> \<not> routeSkipped a hop (rs ! j) \<and>
              startingRouteEval a hop (rs ! j)
           then Some (freshQuote pct (rs ! j)) else entryAt qm p j)" for p j
    using all1 by simp
  have same: "entryAt qm1 p j = entryAt qm p j" if "\<not> startingRouteEval a hop (rs ! j)" for p j
    using that by (simp add: e1)
  have dueq: "due a hop (entryAt qm1 p j) (rs ! j) = due a hop (entryAt qm p j) (rs ! j)" for p j
    by (rule due_cong) (rule same)
  have wbq: "wellBuilt inputTokenMint outputTokenMint a hop t (entryAt qm1 p j) (rs ! j) u =
             wellBuilt inputTokenMint outputTokenMint a hop t (entryAt qm p j) (rs ! j) u" for t p j u
    by (rule wellBuilt_cong) (rule same)
  let ?new = "new1 @ new2"
  have c0: "us' = us @ ?new" using all1 all2 by simp
  have c1: "\<forall>m<length ?new. quoteIndex (?new ! m) = length us + m"
  proof (intro allI impI)
    fix m assume m: "m < length ?new"
    show "quoteIndex (?new ! m) = length us + m"
    proof (cases "m < length new1")
      case True
      then show ?thesis using all1 by (simp add: nth_append)
    next
      case False
      then have "?new ! m = new2 ! (m - length new1)" by (simp add: nth_append)
      moreover have "m - length new1 < length new2" using m False by simp
      moreover have "length us1 = length us + length new1" using all1 by simp
      ultimately show ?thesis using all2 False by simp
    qed
  qed
  have c2: "\<forall>u \<in> set ?new. hopIndex u = hop \<and> routeIndex u < length rs \<and>
          (\<exists>t. (QuoteUpdate.percent u, t) \<in> set (pa # pas) \<and>
             wellBuilt inputTokenMint outputTokenMint a hop t
               (entryAt qm (QuoteUpdate.percent u) (routeIndex u)) (rs ! routeIndex u) u)"
  proof
    fix u assume "u \<in> set ?new"
    then consider "u \<in> set new1" | "u \<in> set new2" by auto
    then show "hopIndex u = hop \<and> routeIndex u < length rs \<and>
          (\<exists>t. (QuoteUpdate.percent u, t) \<in> set (pa # pas) \<and>
             wellBuilt inputTokenMint outputTokenMint a hop t
               (entryAt qm (QuoteUpdate.percent u) (routeIndex u)) (rs ! routeIndex u) u)"
    proof cases
      case 1
      with f1 have "QuoteUpdate.percent u = pct" "hopIndex u = hop" "routeIndex u < length rs"
        "wellBuilt inputTokenMint outputTokenMint a hop amt (entryAt qm pct (routeIndex u))
            (rs ! routeIndex u) u" by auto
      then show ?thesis using pa by auto
    next
      case 2
      with f2 obtain t where "hopIndex u = hop" "routeIndex u < length rs"
        "(QuoteUpdate.percent u, t) \<in> set pas"
        "wellBuilt inputTokenMint outputTokenMint a hop t
               (entryAt qm1 (QuoteUpdate.percent u) (routeIndex u)) (rs ! routeIndex u) u" by blast
      then show ?thesis using wbq by auto
    qed
  qed
  have c3: "\<forall>p j. p \<in> fst ` set (pa # pas) \<and> j < length rs \<and> due a hop (entryAt qm p j) (rs ! j) \<longrightarrow>
          (\<exists>u \<in> set ?new. QuoteUpdate.percent u = p \<and> routeIndex u = j)"
  proof (intro allI impI)
    fix p j
    assume h: "p \<in> fst ` set (pa # pas) \<and> j < length rs \<and> due a hop (entryAt qm p j) (rs ! j)"
    show "\<exists>u \<in> set ?new. QuoteUpdate.percent u = p \<and> routeIndex u = j"
    proof (cases "p = pct")
      case True
      with h d1 obtain u where "u \<in> set new1" "routeIndex u = j" by blast
      moreover from this f1 have "QuoteUpdate.percent u = pct" by auto
      ultimately show ?thesis using True by auto
    next
      case False
      with h pa have "p \<in> fst ` set pas" by auto
      moreover from h have "due a hop (entryAt qm1 p j) (rs ! j)" by (simp add: dueq)
      ultimately obtain u where "u \<in> set new2" "QuoteUpdate.percent u = p" "routeIndex u = j"
        using d2 h by blast
      then show ?thesis by auto
    qed
  qed
  have c4: "\<forall>p j. p \<in> fst ` set (pa # pas) \<and> j < length rs \<and> \<not> routeSkipped a hop (rs ! j) \<and>
          \<not> startingRouteEval a hop (rs ! j) \<longrightarrow> entryAt qm p j \<noteq> None"
  proof (intro allI impI)
    fix p j
    assume h: "p \<in> fst ` set (pa # pas) \<and> j < length rs \<and> \<not> routeSkipped a hop (rs ! j) \<and>
          \<not> startingRouteEval a hop (rs ! j)"
    show "entryAt qm p j \<noteq> None"
    proof (cases "p = pct")
      case True
      with h x1 show ?thesis by simp
    next
      case False
      with h pa have "p \<in> fst ` set pas" by auto
      with h x2 have "entryAt qm1 p j \<noteq> None" by blast
      with h show ?thesis by (simp add: same)
    qed
  qed
  have e2: "entryAt qm' p j =
          (if p \<in> fst ` set pas \<and> j < length rs \<and> \<not> routeSkipped a hop (rs ! j) \<and>
              startingRouteEval a hop (rs ! j)
           then Some (freshQuote p (rs ! j)) else entryAt qm1 p j)" for p j
    using all2 by simp
  have c5: "\<forall>p j. entryAt qm' p j =
          (if p \<in> fst ` set (pa # pas) \<and> j < length rs \<and> \<not> routeSkipped a hop (rs ! j) \<and>
              startingRouteEval a hop (rs ! j)
           then Some (freshQuote p (rs ! j)) else entryAt qm p j)"
    by (auto simp: e2 e1 pa)
  have c6: "dom (map_of qm') = dom (map_of qm) \<union> fst ` set (pa # pas)"
    using all1 all2 pa by auto
  have c7: "(\<forall>p b. map_of qm p = Some b \<longrightarrow> length b = length rs) \<longrightarrow>
      (\<forall>p b. map_of qm' p = Some b \<longrightarrow> length b = length rs)"
    using all1 all2 by blast
  have c8: "sorted_wrt (<) (map fst (pa # pas)) \<longrightarrow> sorted_wrt listedBefore ?new"
  proof
    assume srt: "sorted_wrt (<) (map fst (pa # pas))"
    then have later: "\<forall>q \<in> fst ` set pas. pct < q" and srt2: "sorted_wrt (<) (map fst pas)"
      using pa by auto
    have s1: "sorted_wrt listedBefore new1"
    proof -
      have "sorted_wrt (\<lambda>u v. routeIndex u < routeIndex v) new1"
        using all1 by (simp add: sorted_wrt_map)
      moreover have "\<forall>u \<in> set new1. QuoteUpdate.percent u = pct" using f1 by simp
      ultimately show ?thesis
        by (auto simp: listedBefore_def elim!: sorted_wrt_mono_rel[rotated])
    qed
    have s2: "sorted_wrt listedBefore new2" using all2 srt2 by simp
    have cross: "\<forall>u \<in> set new1. \<forall>v \<in> set new2. listedBefore u v"
    proof (intro ballI)
      fix u v assume u: "u \<in> set new1" and v: "v \<in> set new2"
      from u f1 have "QuoteUpdate.percent u = pct" by simp
      moreover from v f2 obtain t where "(QuoteUpdate.percent v, t) \<in> set pas" by blast
      then have "QuoteUpdate.percent v \<in> fst ` set pas" by force
      ultimately show "listedBefore u v" using later by (auto simp: listedBefore_def)
    qed
    from s1 s2 cross show "sorted_wrt listedBefore ?new" by (simp add: sorted_wrt_append)
  qed
  from c0 c1 c2 c3 c4 c5 c6 c7 c8 show ?case by blast
qed

section \<open>Requests are numbered by position and listed in order\<close>

lemma nthOpt_inside: "i < length xs \<Longrightarrow> nthOpt xs i = Some (xs ! i)"
  by (simp add: nthOpt_def)

text \<open>
  Claim C9. In the list that \<^verbatim>\<open>buildQuoteUpdateRequests\<close> returns for a hop, the
  \<^verbatim>\<open>quoteIndex\<close> of every element is its position. Hence, when \<^verbatim>\<open>quoteParams\<close> has one
  entry per request, the read \<^verbatim>\<open>quoteParams[quoteIndex]\<close> of \<^verbatim>\<open>updateQuoteMap\<close> is in
  bounds and returns the entry at the position of the update. The requests are
  listed by ascending percentage (for ascending \<^verbatim>\<open>percents\<close>) and, within a percentage,
  in the order of the routes.
\<close>

theorem buildQuoteUpdateRequests_positions:
  assumes "buildQuoteUpdateRequests inputTokenMint outputTokenMint pools pairRoutes percents amounts
             hop amountIsInput quoteMap = Inr (quoteUpdates, quoteMap')"
  shows "(\<forall>m<length quoteUpdates. quoteIndex (quoteUpdates ! m) = m) \<and>
         (length quoteParams = length quoteUpdates \<longrightarrow>
            (\<forall>m<length quoteUpdates.
               nthOpt quoteParams (quoteIndex (quoteUpdates ! m)) = Some (quoteParams ! m))) \<and>
         (sorted_wrt (<) percents \<longrightarrow> sorted_wrt listedBefore quoteUpdates)"
proof -
  from assms have run: "forEach (amountBody inputTokenMint outputTokenMint pools pairRoutes hop
        amountIsInput) (zip percents amounts) ([], quoteMap) = Inr (quoteUpdates, quoteMap')"
    by (simp add: buildQuoteUpdateRequests_def)
  note eff = build_effect[OF run]
  have pos: "\<forall>m<length quoteUpdates. quoteIndex (quoteUpdates ! m) = m"
    using eff by (elim exE conjE) simp
  have ord: "sorted_wrt (<) (map fst (zip percents amounts)) \<longrightarrow>
             sorted_wrt listedBefore quoteUpdates"
    using eff by (elim exE conjE) simp
  have aligned: "length quoteParams = length quoteUpdates \<longrightarrow>
            (\<forall>m<length quoteUpdates.
               nthOpt quoteParams (quoteIndex (quoteUpdates ! m)) = Some (quoteParams ! m))"
    using pos by (simp add: nthOpt_inside)
  have "sorted_wrt (<) (map fst (zip percents amounts))" if "sorted_wrt (<) percents"
  proof -
    have "map fst (zip percents amounts) = take (min (length percents) (length amounts)) percents"
      by (rule map_fst_zip_take)
    then show ?thesis using that by (simp add: sorted_wrt_take)
  qed
  with ord have "sorted_wrt (<) percents \<longrightarrow> sorted_wrt listedBefore quoteUpdates" by simp
  with pos aligned show ?thesis by simp
qed

lemma build_two_by_two:
  "(case buildQuoteUpdateRequests ''A'' ''B'' exPools [[''p3''], [''p4'']] [50, 100] [500, 1000]
           0 True [] of
      Inl e \<Rightarrow> None
    | Inr (quoteUpdates, quoteMap') \<Rightarrow>
        Some (map (\<lambda>u. (QuoteUpdate.percent u, routeIndex u, quoteIndex u)) quoteUpdates))
   = Some [(50, 0, 0), (50, 1, 1), (100, 0, 2), (100, 1, 3)]"
  by code_simp

theorem buildQuoteUpdateRequests_positions_witness:
  "sorted_wrt (<) [50, 100 :: nat] \<and>
   (\<exists>quoteUpdates quoteMap'.
      buildQuoteUpdateRequests ''A'' ''B'' exPools [[''p3''], [''p4'']] [50, 100] [500, 1000]
        0 True [] = Inr (quoteUpdates, quoteMap') \<and>
      map (\<lambda>u. (QuoteUpdate.percent u, routeIndex u, quoteIndex u)) quoteUpdates =
        [(50, 0, 0), (50, 1, 1), (100, 0, 2), (100, 1, 3)] \<and>
      length (map exParam (map request quoteUpdates)) = length quoteUpdates \<and>
      (\<forall>m<length quoteUpdates. quoteIndex (quoteUpdates ! m) = m) \<and>
      (\<forall>m<length quoteUpdates.
          nthOpt (map exParam (map request quoteUpdates)) (quoteIndex (quoteUpdates ! m)) =
            Some (map exParam (map request quoteUpdates) ! m)) \<and>
      sorted_wrt listedBefore quoteUpdates)"
proof -
  from build_two_by_two obtain quoteUpdates quoteMap' where
    run: "buildQuoteUpdateRequests ''A'' ''B'' exPools [[''p3''], [''p4'']] [50, 100] [500, 1000]
            0 True [] = Inr (quoteUpdates, quoteMap')" and
    listed: "map (\<lambda>u. (QuoteUpdate.percent u, routeIndex u, quoteIndex u)) quoteUpdates =
        [(50, 0, 0), (50, 1, 1), (100, 0, 2), (100, 1, 3)]"
    by (auto split: sum.splits prod.splits)
  have srt: "sorted_wrt (<) [50, 100 :: nat]" by simp
  have len: "length (map exParam (map request quoteUpdates)) = length quoteUpdates" by simp
  note t = buildQuoteUpdateRequests_positions[OF run, of "map exParam (map request quoteUpdates)"]
  from t have p1: "\<forall>m<length quoteUpdates. quoteIndex (quoteUpdates ! m) = m" by simp
  from t len have p2: "\<forall>m<length quoteUpdates.
          nthOpt (map exParam (map request quoteUpdates)) (quoteIndex (quoteUpdates ! m)) =
            Some (map exParam (map request quoteUpdates) ! m)" by (elim conjE) simp
  from t srt have p3: "sorted_wrt listedBefore quoteUpdates" by (elim conjE) simp
  show ?thesis
    apply (rule conjI[OF srt])
    apply (rule exI[of _ quoteUpdates], rule exI[of _ quoteMap'])
    using run listed len p1 p2 p3 by simp
qed

section \<open>The executor writes one result per update\<close>

lemma jsGet_update: "jsGet (xs[i := x]) j = (if j = i \<and> i < length xs then x else jsGet xs j)"
  by (auto simp: jsGet_def)

lemma updateBody_effect:
  assumes "updateBody engine qps u qm = Inr qm1"
  shows "\<exists>e. entryAt qm (QuoteUpdate.percent u) (routeIndex u) = Some e \<and>
     (\<forall>p j. entryAt qm1 p j =
        (if p = QuoteUpdate.percent u \<and> j = routeIndex u
         then Some (e\<lparr> InternalRouteQuote.calculatedHops :=
                jsSet (InternalRouteQuote.calculatedHops e) (hopIndex u)
                  (hopResultFor engine qps u) \<rparr>)
         else entryAt qm p j)) \<and>
     (\<forall>p. map_option length (map_of qm1 p) = map_option length (map_of qm p))"
proof -
  from assms obtain b where b: "map_of qm (QuoteUpdate.percent u) = Some b"
    by (auto simp: updateBody_def split: option.splits)
  with assms obtain e where e: "jsGet b (routeIndex u) = Some e"
    by (auto simp: updateBody_def split: option.splits)
  let ?e' = "e\<lparr> InternalRouteQuote.calculatedHops :=
                jsSet (InternalRouteQuote.calculatedHops e) (hopIndex u)
                  (hopResultFor engine qps u) \<rparr>"
  from assms b e have qm1: "qm1 = setKey (QuoteUpdate.percent u) (b[routeIndex u := Some ?e']) qm"
    by (simp add: updateBody_def)
  have inb: "routeIndex u < length b" using e by (rule jsGet_Some_length)
  have "entryAt qm (QuoteUpdate.percent u) (routeIndex u) = Some e"
    using b e by (simp add: entryAt_def)
  moreover have "\<forall>p j. entryAt qm1 p j =
        (if p = QuoteUpdate.percent u \<and> j = routeIndex u then Some ?e' else entryAt qm p j)"
  proof -
    have eb: "entryAt qm (QuoteUpdate.percent u) j = jsGet b j" for j
      using b by (simp add: entryAt_def)
    show ?thesis using inb by (auto simp: qm1 entryAt_setKey jsGet_update eb)
  qed
  moreover have "\<forall>p. map_option length (map_of qm1 p) = map_option length (map_of qm p)"
    using b by (auto simp: qm1 map_of_setKey)
  ultimately show ?thesis by blast
qed

lemma rewritten_none: "rewritten result [] p j e e"
  by (simp add: rewritten_def)

lemma rewritten_one:
  "rewritten result [u] p j e
     (if p = QuoteUpdate.percent u \<and> j = routeIndex u
      then e\<lparr> InternalRouteQuote.calculatedHops :=
               jsSet (InternalRouteQuote.calculatedHops e) (hopIndex u) (result u) \<rparr>
      else e)"
  by (auto simp: rewritten_def jsGet_jsSet length_jsSet)

lemma rewritten_then:
  assumes "rewritten result [u] p j e e1" and "rewritten result us p j e1 e'"
  shows "rewritten result (u # us) p j e e'"
proof -
  let ?T = "\<lambda>v h. QuoteUpdate.percent v = p \<and> routeIndex v = j \<and> hopIndex v = h"
  have r1: "InternalRouteQuote.route e' = InternalRouteQuote.route e"
    and r2: "InternalRouteQuote.percent e' = InternalRouteQuote.percent e"
    using assms by (simp_all add: rewritten_def)
  have one_t: "jsGet (InternalRouteQuote.calculatedHops e1) h = Some (result u)" if "?T u h" for h
    using assms(1) that unfolding rewritten_def by auto
  have one_n: "jsGet (InternalRouteQuote.calculatedHops e1) h =
               jsGet (InternalRouteQuote.calculatedHops e) h" if "\<not> ?T u h" for h
    using assms(1) that unfolding rewritten_def by auto
  have rest_t: "\<exists>v \<in> set us. ?T v h \<and> jsGet (InternalRouteQuote.calculatedHops e') h = Some (result v)"
    if "\<exists>v \<in> set us. ?T v h" for h
    using assms(2) that unfolding rewritten_def by blast
  have rest_n: "jsGet (InternalRouteQuote.calculatedHops e') h =
                jsGet (InternalRouteQuote.calculatedHops e1) h" if "\<not> (\<exists>v \<in> set us. ?T v h)" for h
    using assms(2) that unfolding rewritten_def by blast
  have slots_t: "\<exists>v \<in> set (u # us). ?T v h \<and>
                  jsGet (InternalRouteQuote.calculatedHops e') h = Some (result v)"
    if t: "\<exists>v \<in> set (u # us). ?T v h" for h
  proof (cases "\<exists>v \<in> set us. ?T v h")
    case True
    from rest_t[OF True] show ?thesis by auto
  next
    case False
    with t have tu: "?T u h" by auto
    from rest_n[OF False] one_t[OF tu] tu show ?thesis by auto
  qed
  have slots_n: "jsGet (InternalRouteQuote.calculatedHops e') h =
               jsGet (InternalRouteQuote.calculatedHops e) h"
    if n: "\<not> (\<exists>v \<in> set (u # us). ?T v h)" for h
  proof -
    from n have a: "\<not> (\<exists>v \<in> set us. ?T v h)" and b: "\<not> ?T u h" by auto
    from rest_n[OF a] one_n[OF b] show ?thesis by simp
  qed
  have len: "length (InternalRouteQuote.calculatedHops e') = length (InternalRouteQuote.calculatedHops e)"
    if inr: "\<forall>v \<in> set (u # us). QuoteUpdate.percent v = p \<and> routeIndex v = j \<longrightarrow>
                         hopIndex v < length (InternalRouteQuote.calculatedHops e)"
  proof -
    from assms(1) inr have l1: "length (InternalRouteQuote.calculatedHops e1) =
         length (InternalRouteQuote.calculatedHops e)" by (simp add: rewritten_def)
    with inr have "\<forall>v \<in> set us. QuoteUpdate.percent v = p \<and> routeIndex v = j \<longrightarrow>
                         hopIndex v < length (InternalRouteQuote.calculatedHops e1)" by simp
    with assms(2) have "length (InternalRouteQuote.calculatedHops e') =
         length (InternalRouteQuote.calculatedHops e1)" by (simp add: rewritten_def)
    with l1 show ?thesis by simp
  qed
  show ?thesis
    unfolding rewritten_def using r1 r2 slots_t slots_n len by blast
qed

lemma updateLoop_effect:
  assumes "forEach (updateBody engine qps) us qm = Inr qm'"
  shows "(\<forall>p. map_option length (map_of qm' p) = map_option length (map_of qm p)) \<and>
         (\<forall>u \<in> set us. entryAt qm (QuoteUpdate.percent u) (routeIndex u) \<noteq> None) \<and>
         (\<forall>p j. entryAt qm p j = None \<longrightarrow> entryAt qm' p j = None) \<and>
         (\<forall>p j e. entryAt qm p j = Some e \<longrightarrow>
            (\<exists>e'. entryAt qm' p j = Some e' \<and> rewritten (hopResultFor engine qps) us p j e e'))"
  using assms
proof (induction us arbitrary: qm)
  case Nil
  then show ?case by (simp add: rewritten_none)
next
  case (Cons u us)
  from Cons.prems obtain qm1 where
    one: "updateBody engine qps u qm = Inr qm1" and
    rest: "forEach (updateBody engine qps) us qm1 = Inr qm'"
    by (auto split: sum.splits)
  from updateBody_effect[OF one] obtain e0 where
    t0: "entryAt qm (QuoteUpdate.percent u) (routeIndex u) = Some e0" and
    s1: "\<And>p j. entryAt qm1 p j =
        (if p = QuoteUpdate.percent u \<and> j = routeIndex u
         then Some (e0\<lparr> InternalRouteQuote.calculatedHops :=
                jsSet (InternalRouteQuote.calculatedHops e0) (hopIndex u)
                  (hopResultFor engine qps u) \<rparr>)
         else entryAt qm p j)" and
    l1: "\<And>p. map_option length (map_of qm1 p) = map_option length (map_of qm p)"
    by blast
  note ih = Cons.IH[OF rest]
  have i1: "\<And>p. map_option length (map_of qm' p) = map_option length (map_of qm1 p)"
    using ih by simp
  have i2: "\<And>v. v \<in> set us \<Longrightarrow> entryAt qm1 (QuoteUpdate.percent v) (routeIndex v) \<noteq> None"
    using ih by simp
  have i3: "\<And>p j. entryAt qm1 p j = None \<Longrightarrow> entryAt qm' p j = None"
    using ih by simp
  have i4: "\<And>p j e. entryAt qm1 p j = Some e \<Longrightarrow>
            (\<exists>e'. entryAt qm' p j = Some e' \<and> rewritten (hopResultFor engine qps) us p j e e')"
    using ih by simp
  have none_iff: "entryAt qm1 p j = None \<longleftrightarrow> entryAt qm p j = None" for p j
    using t0 by (auto simp: s1)
  have c1: "\<forall>p. map_option length (map_of qm' p) = map_option length (map_of qm p)"
    using i1 l1 by simp
  have c2: "\<forall>v \<in> set (u # us). entryAt qm (QuoteUpdate.percent v) (routeIndex v) \<noteq> None"
    using t0 i2 none_iff by auto
  have c3: "\<forall>p j. entryAt qm p j = None \<longrightarrow> entryAt qm' p j = None"
    using i3 none_iff by simp
  have c4: "\<forall>p j e. entryAt qm p j = Some e \<longrightarrow>
            (\<exists>e'. entryAt qm' p j = Some e' \<and> rewritten (hopResultFor engine qps) (u # us) p j e e')"
  proof (intro allI impI)
    fix p j e assume e: "entryAt qm p j = Some e"
    let ?e1 = "(if p = QuoteUpdate.percent u \<and> j = routeIndex u
         then e\<lparr> InternalRouteQuote.calculatedHops :=
                jsSet (InternalRouteQuote.calculatedHops e) (hopIndex u)
                  (hopResultFor engine qps u) \<rparr>
         else e)"
    have "entryAt qm1 p j = Some ?e1" using e t0 by (auto simp: s1)
    from i4[OF this] obtain e' where e': "entryAt qm' p j = Some e'"
      and rw: "rewritten (hopResultFor engine qps) us p j ?e1 e'" by blast
    from rewritten_then[OF rewritten_one rw] e'
    show "\<exists>e'. entryAt qm' p j = Some e' \<and> rewritten (hopResultFor engine qps) (u # us) p j e e'"
      by blast
  qed
  from c1 c2 c3 c4 show ?case by blast
qed

section \<open>The shape of a chain of hops\<close>

lemma chain_zero: "chain 0 hs \<longleftrightarrow> (\<forall>x \<in> set hs. x = None)"
  by (induction hs) auto

lemma chain_fresh: "chain 0 (replicate n None)"
  by (simp add: chain_zero)

lemma chain_complete_more: "chain t hs \<Longrightarrow> length hs \<le> t \<Longrightarrow> chain (Suc t) hs"
proof (induction t hs rule: chain.induct)
  case (2 x xs)
  then show ?case by simp
qed simp_all

lemma chain_write:
  assumes "chain t hs" "t < length hs" "t = 0 \<or> (\<exists>h. hs ! (t - 1) = Some (Success h))"
  shows "chain (Suc t) (hs[t := Some x])"
  using assms
proof (induction t hs rule: chain.induct)
  case (1 t)
  then show ?case by simp
next
  case (2 y ys)
  then show ?case by (cases x) (simp_all add: chain_zero)
next
  case (3 t h xs)
  show ?case
  proof (cases t)
    case 0
    with 3 show ?thesis by (cases xs; cases x) (simp_all add: chain_zero)
  next
    case (Suc k)
    with 3 show ?thesis by simp
  qed
next
  case (4 t e xs)
  show ?case
  proof (cases t)
    case 0
    with 4 show ?thesis by simp
  next
    case (Suc k)
    with 4 have "chain 0 xs" "\<exists>h. xs ! k = Some (Success h)" "k < length xs" by simp_all
    then have False unfolding chain_zero by (metis nth_mem option.distinct(1))
    then show ?thesis ..
  qed
next
  case (5 t xs)
  then show ?case by simp
qed

lemma chain_stuck:
  assumes "chain t hs" "t < length hs" "0 < t" "\<forall>h. hs ! (t - 1) \<noteq> Some (Success h)"
  shows "chain (Suc t) hs"
  using assms
proof (induction t hs rule: chain.induct)
  case (3 t h xs)
  show ?case
  proof (cases t)
    case 0
    with 3 show ?thesis by simp
  next
    case (Suc k)
    with 3 show ?thesis by simp
  qed
next
  case (4 t e xs)
  then show ?case by simp
qed simp_all

lemma successHops_none: "\<forall>x \<in> set hs. x = None \<Longrightarrow> successHops hs = [] \<and> failedHops hs = []"
  by (induction hs) auto

lemma length_successHops_le: "length (successHops hs) \<le> length hs"
  by (induction hs rule: successHops.induct) auto

lemma chain_done:
  assumes "chain t hs" "length hs \<le> t"
  shows "length (successHops hs) = length hs \<or>
         (length (failedHops hs) = 1 \<and> length (successHops hs) < length hs)"
  using assms
proof (induction t hs rule: chain.induct)
  case (4 t e xs)
  then have "\<forall>x \<in> set xs. x = None" by (simp add: chain_zero)
  from successHops_none[OF this] show ?case by simp
next
  case (3 t h xs)
  then show ?case by auto
qed simp_all

lemma chain_after_failure:
  assumes "chain t hs" "hs ! k = Some (Failure c)" "k < i" "i < length hs"
  shows "hs ! i = None"
  using assms
proof (induction t hs arbitrary: k i rule: chain.induct)
  case (2 x xs)
  from "2.prems"(1) have "\<forall>y \<in> set (x # xs). y = None" by (simp add: chain_zero)
  moreover have "(x # xs) ! i \<in> set (x # xs)" using "2.prems"(4) by (intro nth_mem)
  ultimately show ?case by blast
next
  case (3 t h xs)
  from "3.prems"(2) obtain k' where k: "k = Suc k'" by (cases k) auto
  with "3.prems"(3) obtain i' where i: "i = Suc i'" by (cases i) auto
  from "3.IH"[of k' i'] "3.prems" k i show ?case by simp
next
  case (4 t e xs)
  from "4.prems"(1) have "\<forall>y \<in> set xs. y = None" by (simp add: chain_zero)
  moreover from "4.prems"(3) obtain i' where i: "i = Suc i'" by (cases i) auto
  with "4.prems"(4) have "(Some (Failure e) # xs) ! i \<in> set xs" by simp
  ultimately show ?case by blast
qed simp_all

lemma chain_set_after_success:
  assumes "chain t hs" "i < length hs" "hs ! i \<noteq> None" "0 < i"
  shows "\<exists>h. hs ! (i - 1) = Some (Success h)"
  using assms
proof (induction t hs arbitrary: i rule: chain.induct)
  case (2 x xs)
  from "2.prems"(1) have "\<forall>y \<in> set (x # xs). y = None" by (simp add: chain_zero)
  moreover have "(x # xs) ! i \<in> set (x # xs)" using "2.prems"(2) by (intro nth_mem)
  ultimately have "(x # xs) ! i = None" by blast
  with "2.prems"(3) show ?case by simp
next
  case (3 t h xs)
  from "3.prems"(4) obtain i' where i: "i = Suc i'" by (cases i) auto
  show ?case
  proof (cases i')
    case 0
    with i show ?thesis by simp
  next
    case (Suc m)
    from "3.IH"[of i'] "3.prems" i Suc have "\<exists>h. xs ! (i' - 1) = Some (Success h)" by simp
    with i Suc show ?thesis by simp
  qed
next
  case (4 t e xs)
  from "4.prems"(1) have "\<forall>y \<in> set xs. y = None" by (simp add: chain_zero)
  moreover from "4.prems"(4) obtain i' where i: "i = Suc i'" by (cases i) auto
  with "4.prems"(2) have "(Some (Failure e) # xs) ! i \<in> set xs" by simp
  ultimately have "(Some (Failure e) # xs) ! i = None" by blast
  with "4.prems"(3) show ?case by simp
qed simp_all

lemma successHops_append: "successHops (xs @ ys) = successHops xs @ successHops ys"
  by (induction xs rule: successHops.induct) auto

lemma failedHops_append: "failedHops (xs @ ys) = failedHops xs @ failedHops ys"
  by (induction xs rule: failedHops.induct) auto

lemma length_successHops_rev: "length (successHops (rev hs)) = length (successHops hs)"
  by (induction hs rule: successHops.induct) (auto simp: successHops_append)

lemma length_failedHops_rev: "length (failedHops (rev hs)) = length (failedHops hs)"
  by (induction hs rule: failedHops.induct) (auto simp: failedHops_append)

lemma length_ordered [simp]: "length (ordered a hs) = length hs"
  by (simp add: ordered_def)

lemma ordered_counts:
  "length (successHops (ordered a hs)) = length (successHops hs)"
  "length (failedHops (ordered a hs)) = length (failedHops hs)"
  by (simp_all add: ordered_def length_successHops_rev length_failedHops_rev)

section \<open>One iteration of the hop loop\<close>

lemma list_eq_jsGet:
  assumes "length xs = length ys" "\<And>h. jsGet xs h = jsGet ys h"
  shows "xs = ys"
proof (rule nth_equalityI[OF assms(1)])
  fix i assume "i < length xs"
  with assms(2)[of i] assms(1) show "xs ! i = ys ! i" by (simp add: jsGet_def)
qed

lemma rewritten_route:
  "rewritten result us p j e e' \<Longrightarrow> InternalRouteQuote.route e' = InternalRouteQuote.route e"
  by (simp add: rewritten_def)

lemma rewritten_written:
  assumes "rewritten result us p j e e'"
    and "\<exists>u \<in> set us. QuoteUpdate.percent u = p \<and> routeIndex u = j \<and> hopIndex u = h"
  shows "\<exists>u \<in> set us. QuoteUpdate.percent u = p \<and> routeIndex u = j \<and> hopIndex u = h \<and>
           jsGet (InternalRouteQuote.calculatedHops e') h = Some (result u)"
proof -
  from assms(1) have "\<forall>h. (\<exists>u \<in> set us. QuoteUpdate.percent u = p \<and> routeIndex u = j \<and> hopIndex u = h) \<longrightarrow>
          (\<exists>u \<in> set us. QuoteUpdate.percent u = p \<and> routeIndex u = j \<and> hopIndex u = h \<and>
             jsGet (InternalRouteQuote.calculatedHops e') h = Some (result u))"
    by (simp add: rewritten_def)
  then have "(\<exists>u \<in> set us. QuoteUpdate.percent u = p \<and> routeIndex u = j \<and> hopIndex u = h) \<longrightarrow>
          (\<exists>u \<in> set us. QuoteUpdate.percent u = p \<and> routeIndex u = j \<and> hopIndex u = h \<and>
             jsGet (InternalRouteQuote.calculatedHops e') h = Some (result u))"
    by (rule spec)
  from this assms(2) show ?thesis by (rule mp)
qed

lemma rewritten_kept:
  assumes "rewritten result us p j e e'"
    and "\<not> (\<exists>u \<in> set us. QuoteUpdate.percent u = p \<and> routeIndex u = j \<and> hopIndex u = h)"
  shows "jsGet (InternalRouteQuote.calculatedHops e') h = jsGet (InternalRouteQuote.calculatedHops e) h"
proof -
  from assms(1) have "\<forall>h. \<not> (\<exists>u \<in> set us. QuoteUpdate.percent u = p \<and> routeIndex u = j \<and> hopIndex u = h) \<longrightarrow>
          jsGet (InternalRouteQuote.calculatedHops e') h =
          jsGet (InternalRouteQuote.calculatedHops e) h"
    by (simp add: rewritten_def)
  then have "\<not> (\<exists>u \<in> set us. QuoteUpdate.percent u = p \<and> routeIndex u = j \<and> hopIndex u = h) \<longrightarrow>
          jsGet (InternalRouteQuote.calculatedHops e') h =
          jsGet (InternalRouteQuote.calculatedHops e) h"
    by (rule spec)
  from this assms(2) show ?thesis by (rule mp)
qed

lemma rewritten_length:
  assumes "rewritten result us p j e e'"
    and "\<forall>u \<in> set us. QuoteUpdate.percent u = p \<and> routeIndex u = j \<longrightarrow>
                      hopIndex u < length (InternalRouteQuote.calculatedHops e)"
  shows "length (InternalRouteQuote.calculatedHops e') = length (InternalRouteQuote.calculatedHops e)"
  using assms by (simp add: rewritten_def)

lemma rewritten_untouched:
  assumes "rewritten result us p j e e'"
    and "\<not> (\<exists>u \<in> set us. QuoteUpdate.percent u = p \<and> routeIndex u = j)"
  shows "InternalRouteQuote.calculatedHops e' = InternalRouteQuote.calculatedHops e"
proof (rule list_eq_jsGet)
  have "\<forall>u \<in> set us. QuoteUpdate.percent u = p \<and> routeIndex u = j \<longrightarrow>
                      hopIndex u < length (InternalRouteQuote.calculatedHops e)"
    using assms(2) by blast
  from rewritten_length[OF assms(1) this]
  show "length (InternalRouteQuote.calculatedHops e') = length (InternalRouteQuote.calculatedHops e)" .
next
  fix h
  have "\<not> (\<exists>u \<in> set us. QuoteUpdate.percent u = p \<and> routeIndex u = j \<and> hopIndex u = h)"
    using assms(2) by blast
  from rewritten_kept[OF assms(1) this]
  show "jsGet (InternalRouteQuote.calculatedHops e') h = jsGet (InternalRouteQuote.calculatedHops e) h" .
qed

lemma rewritten_touched:
  assumes rw: "rewritten result us p j e e'"
    and tg: "\<exists>u \<in> set us. QuoteUpdate.percent u = p \<and> routeIndex u = j"
    and hops: "\<forall>u \<in> set us. hopIndex u = hop"
    and inside: "hop < length (InternalRouteQuote.calculatedHops e)"
  shows "\<exists>x. InternalRouteQuote.calculatedHops e' = (InternalRouteQuote.calculatedHops e)[hop := Some x]"
proof -
  from tg hops have "\<exists>u \<in> set us. QuoteUpdate.percent u = p \<and> routeIndex u = j \<and> hopIndex u = hop"
    by blast
  from rewritten_written[OF rw this]
  obtain u where at: "jsGet (InternalRouteQuote.calculatedHops e') hop = Some (result u)"
    by blast
  have "\<forall>u \<in> set us. QuoteUpdate.percent u = p \<and> routeIndex u = j \<longrightarrow>
                      hopIndex u < length (InternalRouteQuote.calculatedHops e)"
    using hops inside by simp
  from rewritten_length[OF rw this]
  have len: "length (InternalRouteQuote.calculatedHops e') = length (InternalRouteQuote.calculatedHops e)" .
  have other: "jsGet (InternalRouteQuote.calculatedHops e') h =
               jsGet (InternalRouteQuote.calculatedHops e) h" if "h \<noteq> hop" for h
  proof -
    from that hops have "\<not> (\<exists>u \<in> set us. QuoteUpdate.percent u = p \<and> routeIndex u = j \<and> hopIndex u = h)"
      by blast
    from rewritten_kept[OF rw this] show ?thesis .
  qed
  have "InternalRouteQuote.calculatedHops e' =
        (InternalRouteQuote.calculatedHops e)[hop := Some (result u)]"
  proof (rule list_eq_jsGet)
    show "length (InternalRouteQuote.calculatedHops e') =
          length ((InternalRouteQuote.calculatedHops e)[hop := Some (result u)])"
      using len by simp
  next
    fix h
    show "jsGet (InternalRouteQuote.calculatedHops e') h =
          jsGet ((InternalRouteQuote.calculatedHops e)[hop := Some (result u)]) h"
    proof (cases "h = hop")
      case True
      then show ?thesis using at inside by (simp add: jsGet_update)
    next
      case False
      then show ?thesis using other[OF False] by (simp add: jsGet_update)
    qed
  qed
  then show ?thesis by (rule exI)
qed

lemma ordered_update:
  assumes "hop < length hs"
  shows "ordered a (hs[hop := x]) = (ordered a hs)[(if a then hop else length hs - 1 - hop) := x]"
  using assms by (simp add: ordered_def rev_update)

lemma active_route:
  assumes "t < M" "hop = (if a then t else M - 1 - t)" "\<not> routeSkipped a hop r"
  shows "progressOf a M t (length r) < length r"
    and "progressOf a M (Suc t) (length r) = Suc (progressOf a M t (length r))"
    and "(if a then hop else length r - 1 - hop) = progressOf a M t (length r)"
    and "hop < length r"
    and "startingRouteEval a hop r \<longleftrightarrow> progressOf a M t (length r) = 0"
    and "a \<or> M - Suc t < length r"
proof -
  have h: "hop < length r" using assms(3) by (simp add: routeSkipped_def split: if_splits)
  have p: "progressOf a M t (length r) = (if a then hop else length r - 1 - hop)"
    using assms(1,2) by (simp add: progressOf_def)
  have p': "progressOf a M (Suc t) (length r) = (if a then Suc hop else length r - hop)"
    using assms(1,2) by (simp add: progressOf_def)
  show "hop < length r" by (rule h)
  show "progressOf a M t (length r) < length r" using h by (auto simp: p)
  show "progressOf a M (Suc t) (length r) = Suc (progressOf a M t (length r))"
    using h by (auto simp: p p')
  show "(if a then hop else length r - 1 - hop) = progressOf a M t (length r)" by (simp add: p)
  show "startingRouteEval a hop r \<longleftrightarrow> progressOf a M t (length r) = 0"
    using h by (auto simp: p startingRouteEval_def)
  show "a \<or> M - Suc t < length r" using h assms(1,2) by (cases a) simp_all
qed

lemma active_lastHop:
  assumes "t < M" "hop = (if a then t else M - 1 - t)" "\<not> routeSkipped a hop r"
    and "length hs = length r" "0 < progressOf a M t (length r)"
  shows "lastHopOf a hop hs = ordered a hs ! (progressOf a M t (length r) - 1)"
proof (cases a)
  case True
  with assms have "hop = t" "t < length r" "0 < t"
    by (simp_all add: progressOf_def routeSkipped_def)
  with True assms(4) show ?thesis
    by (auto simp: progressOf_def lastHopOf_def ordered_def jsGet_def)
next
  case False
  with assms have h: "hop = M - 1 - t" "hop < length r" "hop + 1 < length r"
    by (simp_all add: progressOf_def routeSkipped_def)
  then have c: "progressOf a M t (length r) = length r - (hop + 1)"
    using False assms(1) by (simp add: progressOf_def)
  have "rev hs ! (length r - (hop + 1) - 1) = hs ! (hop + 1)"
    using h assms(4) by (simp add: rev_nth)
  with False h assms(4) c show ?thesis
    by (simp add: lastHopOf_def ordered_def jsGet_def)
qed

lemma skipped_route:
  assumes "t < M" "hop = (if a then t else M - 1 - t)" "routeSkipped a hop r"
    and "a \<or> M - t < length r"
  shows "a" and "length r \<le> progressOf a M t (length r)"
    and "progressOf a M (Suc t) (length r) = Suc (progressOf a M t (length r))"
proof -
  show a: "a"
  proof (rule ccontr)
    assume na: "\<not> a"
    with assms(3) have "length r \<le> hop" by (simp add: routeSkipped_def)
    moreover from na assms(1,2,4) have "hop + 1 < length r" by simp
    ultimately show False by simp
  qed
  with assms(3) show "length r \<le> progressOf a M t (length r)"
    using assms(2) by (simp add: progressOf_def routeSkipped_def)
  from a show "progressOf a M (Suc t) (length r) = Suc (progressOf a M t (length r))"
    by (simp add: progressOf_def)
qed

lemma hopBody_parts:
  assumes "hopBody ext inputTokenMint outputTokenMint pools rs percents amounts a hop qm = Inr qm'"
  shows "\<exists>us qm1 qps.
           buildQuoteUpdateRequests inputTokenMint outputTokenMint pools rs percents amounts hop a qm
             = Inr (us, qm1) \<and>
           batchBuildSwapQuoteParams ext (map request us) = Inr qps \<and>
           updateQuoteMap (swapQuoteWithParams ext) us qps qm1 = Inr qm'"
proof (cases "buildQuoteUpdateRequests inputTokenMint outputTokenMint pools rs percents amounts hop a qm")
  case (Inl e)
  with assms show ?thesis by (simp add: hopBody_def)
next
  case (Inr built)
  obtain us qm1 where built: "built = (us, qm1)" by (cases built)
  show ?thesis
  proof (cases "batchBuildSwapQuoteParams ext (map request us)")
    case (Inl e)
    with assms Inr built show ?thesis by (simp add: hopBody_def)
  next
    case qps: (Inr qps)
    with assms Inr built show ?thesis by (simp add: hopBody_def)
  qed
qed

lemma entryAt_SomeD:
  assumes "entryAt qm p j = Some e"
  shows "\<exists>b. map_of qm p = Some b \<and> j < length b \<and> b ! j = Some e"
  using assms by (auto simp: entryAt_def jsGet_def split: option.splits if_splits)

lemma ordered_update_at:
  assumes "hop < length hs" "(if a then hop else length hs - 1 - hop) = c"
  shows "ordered a (hs[hop := x]) = (ordered a hs)[c := x]"
  unfolding assms(2)[symmetric] by (rule ordered_update[OF assms(1)])

lemma hopBody_step:
  assumes inv: "statesOK a rs P M t qm"
    and P: "P = fst ` set (zip percents amounts)"
    and t: "t < M" and hop: "hop = (if a then t else M - 1 - t)"
    and run: "hopBody ext inputTokenMint outputTokenMint pools rs percents amounts a hop qm = Inr qm'"
  shows "statesOK a rs P M (Suc t) qm'"
proof -
  from hopBody_parts[OF run] obtain us qm1 qps where
    b0: "buildQuoteUpdateRequests inputTokenMint outputTokenMint pools rs percents amounts hop a qm
           = Inr (us, qm1)" and
    u0: "updateQuoteMap (swapQuoteWithParams ext) us qps qm1 = Inr qm'"
    by blast
  from b0 have b: "forEach (amountBody inputTokenMint outputTokenMint pools rs hop a)
        (zip percents amounts) ([], qm) = Inr (us, qm1)"
    by (simp add: buildQuoteUpdateRequests_def)
  from u0 have u: "forEach (updateBody (swapQuoteWithParams ext) qps) us qm1 = Inr qm'"
    by (simp add: updateQuoteMap_def)
  let ?res = "hopResultFor (swapQuoteWithParams ext) qps"
  note be = build_effect[OF b]
  have B2: "\<forall>u \<in> set us. hopIndex u = hop \<and> routeIndex u < length rs \<and>
          (\<exists>amt. (QuoteUpdate.percent u, amt) \<in> set (zip percents amounts) \<and>
             wellBuilt inputTokenMint outputTokenMint a hop amt
               (entryAt qm (QuoteUpdate.percent u) (routeIndex u)) (rs ! routeIndex u) u)"
    using be by (elim exE conjE) simp
  have B3: "\<forall>p j. p \<in> P \<and> j < length rs \<and> due a hop (entryAt qm p j) (rs ! j) \<longrightarrow>
          (\<exists>u \<in> set us. QuoteUpdate.percent u = p \<and> routeIndex u = j)"
    using be unfolding P by (elim exE conjE) simp
  have B5: "\<forall>p j. entryAt qm1 p j =
          (if p \<in> P \<and> j < length rs \<and> \<not> routeSkipped a hop (rs ! j) \<and>
              startingRouteEval a hop (rs ! j)
           then Some (freshQuote p (rs ! j)) else entryAt qm p j)"
    using be unfolding P by (elim exE conjE) simp
  have B6: "dom (map_of qm1) = dom (map_of qm) \<union> P"
    using be unfolding P by (elim exE conjE) simp
  have B7: "(\<forall>p b. map_of qm p = Some b \<longrightarrow> length b = length rs) \<longrightarrow>
      (\<forall>p b. map_of qm1 p = Some b \<longrightarrow> length b = length rs)"
    using be by (elim exE conjE) simp
  note ue = updateLoop_effect[OF u]
  have U1: "\<forall>p. map_option length (map_of qm' p) = map_option length (map_of qm1 p)"
    using ue by (elim conjE) simp
  have U3: "\<forall>p j. entryAt qm1 p j = None \<longrightarrow> entryAt qm' p j = None"
    using ue by (elim conjE) simp
  have U4: "\<forall>p j e. entryAt qm1 p j = Some e \<longrightarrow>
            (\<exists>e'. entryAt qm' p j = Some e' \<and> rewritten ?res us p j e e')"
    using ue by (elim conjE) simp
  have inv1: "\<And>p b. map_of qm p = Some b \<Longrightarrow> p \<in> P \<and> length b = length rs"
    using inv by (simp add: statesOK_def)
  have inv2: "\<And>p j e. entryAt qm p j = Some e \<Longrightarrow>
        InternalRouteQuote.route e = rs ! j \<and>
        length (InternalRouteQuote.calculatedHops e) = length (rs ! j) \<and>
        (a \<or> M - t < length (rs ! j)) \<and>
        chain (progressOf a M t (length (rs ! j))) (ordered a (InternalRouteQuote.calculatedHops e))"
    using inv by (simp add: statesOK_def)
  have buckets: "p \<in> P \<and> length b = length rs" if pb: "map_of qm' p = Some b" for p b
  proof -
    from U1 pb have "map_option length (map_of qm1 p) = Some (length b)" by (metis option.simps(9))
    then obtain b1 where b1: "map_of qm1 p = Some b1" and l: "length b1 = length b" by auto
    from b1 B6 have "p \<in> dom (map_of qm) \<union> P" by (metis domI)
    with inv1 have pP: "p \<in> P" by auto
    from inv1 B7 b1 have "length b1 = length rs" by blast
    with l pP show ?thesis by simp
  qed
  have entries: "InternalRouteQuote.route e' = rs ! j \<and>
        length (InternalRouteQuote.calculatedHops e') = length (rs ! j) \<and>
        (a \<or> M - Suc t < length (rs ! j)) \<and>
        chain (progressOf a M (Suc t) (length (rs ! j)))
          (ordered a (InternalRouteQuote.calculatedHops e'))"
    if e': "entryAt qm' p j = Some e'" for p j e'
  proof -
    from entryAt_SomeD[OF e'] obtain b where "map_of qm' p = Some b" "j < length b" by blast
    with buckets have pP: "p \<in> P" and jn: "j < length rs" by auto
    from U3 e' have "entryAt qm1 p j \<noteq> None" by (metis option.distinct(1))
    then obtain e1 where e1: "entryAt qm1 p j = Some e1" by auto
    with U4 e' have rw: "rewritten ?res us p j e1 e'" by (metis option.inject)
    let ?r = "rs ! j"
    let ?c = "progressOf a M t (length ?r)"
    let ?tg = "\<exists>u \<in> set us. QuoteUpdate.percent u = p \<and> routeIndex u = j"
    have hops: "\<forall>u \<in> set us. hopIndex u = hop" using B2 by simp
    have built: "\<not> routeSkipped a hop ?r \<and>
                 (startingRouteEval a hop ?r \<or>
                  (\<exists>cq h. entryAt qm p j = Some cq \<and>
                     lastHopOf a hop (InternalRouteQuote.calculatedHops cq) = Some (Success h)))"
      if tg: ?tg
    proof -
      from tg obtain u where uu: "u \<in> set us" "QuoteUpdate.percent u = p" "routeIndex u = j" by blast
      with B2 obtain amt where "wellBuilt inputTokenMint outputTokenMint a hop amt
               (entryAt qm p j) ?r u" by blast
      then show ?thesis by (auto simp: wellBuilt_def split: if_splits)
    qed
    show ?thesis
    proof (cases "routeSkipped a hop ?r")
      case True
      then have ntg: "\<not> ?tg" using built by blast
      from True B5 e1 have e: "entryAt qm p j = Some e1" by simp
      note i = inv2[OF e]
      from i have st: "a \<or> M - t < length ?r" by simp
      note sk = skipped_route[OF t hop True st]
      from rewritten_untouched[OF rw ntg]
      have same: "InternalRouteQuote.calculatedHops e' = InternalRouteQuote.calculatedHops e1" .
      have "chain (Suc ?c) (ordered a (InternalRouteQuote.calculatedHops e1))"
        using i sk(2) by (intro chain_complete_more) simp_all
      with sk i same rewritten_route[OF rw] show ?thesis by simp
    next
      case active: False
      note ar = active_route[OF t hop active]
      show ?thesis
      proof (cases "startingRouteEval a hop ?r")
        case True
        with active B5 e1 pP jn have e1f: "e1 = freshQuote p ?r" by simp
        from True active have "due a hop (entryAt qm p j) ?r" by (simp add: due_def)
        with B3 pP jn have tg: ?tg by blast
        have inside: "hop < length (InternalRouteQuote.calculatedHops e1)"
          using ar(4) by (simp add: e1f freshQuote_def)
        from rewritten_touched[OF rw tg hops inside] obtain x where
          hs': "InternalRouteQuote.calculatedHops e' = (replicate (length ?r) None)[hop := Some x]"
          by (auto simp: e1f freshQuote_def)
        from True ar(5) have c0: "?c = 0" by simp
        have "ordered a (InternalRouteQuote.calculatedHops e') =
              (ordered a (replicate (length ?r) None))[?c := Some x]"
          unfolding hs' by (rule ordered_update_at) (use ar(3,4) in \<open>auto split: if_splits\<close>)
        moreover have "ordered a (replicate (length ?r) None) = replicate (length ?r) None"
          by (simp add: ordered_def)
        moreover have "chain (Suc ?c) ((replicate (length ?r) None)[?c := Some x])"
          using ar(1) c0 by (intro chain_write) (simp_all add: chain_fresh)
        ultimately have "chain (Suc ?c) (ordered a (InternalRouteQuote.calculatedHops e'))" by simp
        moreover have "InternalRouteQuote.route e' = ?r"
          using rewritten_route[OF rw] by (simp add: e1f freshQuote_def)
        moreover have "length (InternalRouteQuote.calculatedHops e') = length ?r"
          by (simp add: hs')
        ultimately show ?thesis using ar(2,6) by simp
      next
        case False
        with B5 e1 have e: "entryAt qm p j = Some e1" by simp
        note i = inv2[OF e]
        let ?hs = "InternalRouteQuote.calculatedHops e1"
        from i have len: "length ?hs = length ?r" by simp
        from i have ch: "chain ?c (ordered a ?hs)" by simp
        from False ar(5) have cpos: "0 < ?c" by simp
        note lh = active_lastHop[OF t hop active len cpos]
        show ?thesis
        proof (cases "\<exists>h. lastHopOf a hop ?hs = Some (Success h)")
          case True
          with active e have "due a hop (entryAt qm p j) ?r" by (auto simp: due_def)
          with B3 pP jn have tg: ?tg by blast
          have inside: "hop < length ?hs" using ar(4) len by simp
          from rewritten_touched[OF rw tg hops inside] obtain x where
            hs': "InternalRouteQuote.calculatedHops e' = ?hs[hop := Some x]" by blast
          have "ordered a (InternalRouteQuote.calculatedHops e') = (ordered a ?hs)[?c := Some x]"
            unfolding hs' by (rule ordered_update_at[OF inside]) (use ar(3) len in \<open>auto split: if_splits\<close>)
          moreover have "chain (Suc ?c) ((ordered a ?hs)[?c := Some x])"
            using ch ar(1) len True lh by (intro chain_write) auto
          ultimately have "chain (Suc ?c) (ordered a (InternalRouteQuote.calculatedHops e'))"
            by simp
          moreover have "length (InternalRouteQuote.calculatedHops e') = length ?r"
            by (simp add: hs' len)
          ultimately show ?thesis using ar(2,6) i rewritten_route[OF rw] by simp
        next
          case nl: False
          have ntg: "\<not> ?tg"
          proof
            assume ?tg
            from built[OF this] False e nl show False by auto
          qed
          from rewritten_untouched[OF rw ntg]
          have same: "InternalRouteQuote.calculatedHops e' = ?hs" .
          have "chain (Suc ?c) (ordered a ?hs)"
            using ch ar(1) len cpos nl lh by (intro chain_stuck) auto
          with same ar(2,6) i rewritten_route[OF rw] show ?thesis by simp
        qed
      qed
    qed
  qed
  show ?thesis
    unfolding statesOK_def using buckets entries by blast
qed

section \<open>The hop loop\<close>

lemma forEach_indexed:
  assumes "forEach body xs s = Inr s'" and "Q 0 s"
    and "\<And>i t t'. i < length xs \<Longrightarrow> Q i t \<Longrightarrow> body (xs ! i) t = Inr t' \<Longrightarrow> Q (Suc i) t'"
  shows "Q (length xs) s'"
  using assms
proof (induction xs arbitrary: s Q)
  case Nil
  then show ?case by simp
next
  case (Cons x xs)
  from Cons.prems(1) obtain s1 where one: "body x s = Inr s1" and rest: "forEach body xs s1 = Inr s'"
    by (auto split: sum.splits)
  have q1: "Q (Suc 0) s1" using Cons.prems(3)[of 0 s s1] Cons.prems(2) one by simp
  have "(\<lambda>i. Q (Suc i)) (length xs) s'"
  proof (rule Cons.IH[OF rest, of "\<lambda>i. Q (Suc i)"])
    show "Q (Suc 0) s1" by (rule q1)
  next
    fix i t t'
    assume "i < length xs" "Q (Suc i) t" "body (xs ! i) t = Inr t'"
    then show "Q (Suc (Suc i)) t'" using Cons.prems(3)[of "Suc i" t t'] by simp
  qed
  then show ?case by simp
qed

lemma fold_max_ge: "k \<le> fold max xs (k :: nat)"
  by (induction xs arbitrary: k) (auto intro: order_trans[OF max.cobounded2])

lemma fold_max_member: "x \<in> set xs \<Longrightarrow> x \<le> fold max xs (k :: nat)"
proof (induction xs arbitrary: k)
  case Nil
  then show ?case by simp
next
  case (Cons y ys)
  show ?case
  proof (cases "x = y")
    case True
    have "x \<le> max x k" by simp
    also have "\<dots> \<le> fold max ys (max x k)" by (rule fold_max_ge)
    finally show ?thesis using True by simp
  next
    case False
    with Cons show ?thesis by simp
  qed
qed

lemma iteration_length: "length (iteration rs a) = fold max (map length rs) 0"
  by (simp add: iteration_def Let_def)

lemma iteration_nth:
  assumes "t < fold max (map length rs) 0"
  shows "iteration rs a ! t = (if a then t else fold max (map length rs) 0 - 1 - t)"
  using assms by (simp add: iteration_def Let_def rev_nth)

lemma statesOK_start: "statesOK a rs P M 0 []"
  by (simp add: statesOK_def entryAt_def)

lemma hopLoop_states:
  assumes "hopLoop ext inputTokenMint outputTokenMint pools rs percents amounts a = Inr qm"
  shows "statesOK a rs (fst ` set (zip percents amounts)) (fold max (map length rs) 0)
           (fold max (map length rs) 0) qm"
proof -
  let ?M = "fold max (map length rs) 0"
  let ?P = "fst ` set (zip percents amounts)"
  from assms have run: "forEach (hopBody ext inputTokenMint outputTokenMint pools rs percents amounts a)
       (iteration rs a) [] = Inr qm"
    by (simp add: hopLoop_def)
  have "statesOK a rs ?P ?M (length (iteration rs a)) qm"
  proof (rule forEach_indexed[OF run, of "\<lambda>t. statesOK a rs ?P ?M t"])
    show "statesOK a rs ?P ?M 0 []" by (rule statesOK_start)
  next
    fix i t t'
    assume i: "i < length (iteration rs a)" and inv: "statesOK a rs ?P ?M i t"
      and step: "hopBody ext inputTokenMint outputTokenMint pools rs percents amounts a
                   (iteration rs a ! i) t = Inr t'"
    from i have iM: "i < ?M" by (simp add: iteration_length)
    show "statesOK a rs ?P ?M (Suc i) t'"
      by (rule hopBody_step[OF inv refl iM iteration_nth[OF iM] step])
  qed
  then show ?thesis by (simp add: iteration_length)
qed

lemma setKey_keys: "fst ` set (setKey k v m) = insert k (fst ` set m)"
  by (simp add: dom_map_of_conv_image_fst[symmetric] map_of_setKey)

lemma setKey_keys_sorted:
  "sorted_wrt (<) (map fst m) \<Longrightarrow> sorted_wrt (<) (map fst (setKey k v m))"
proof (induction m)
  case Nil
  then show ?case by simp
next
  case (Cons kv m)
  obtain k' v' where kv: "kv = (k', v')" by (cases kv)
  from Cons.prems have tail: "sorted_wrt (<) (map fst m)" and low: "\<forall>x \<in> fst ` set m. k' < x"
    by (auto simp: kv)
  show ?case
  proof (cases "k < k'")
    case True
    with Cons.prems low show ?thesis by (auto simp: kv)
  next
    case False
    show ?thesis
    proof (cases "k = k'")
      case True
      with Cons.prems show ?thesis by (simp add: kv)
    next
      case ne: False
      with False have gt: "k' < k" by simp
      have "\<forall>x \<in> fst ` set (setKey k v m). k' < x"
        unfolding setKey_keys using low gt by simp
      with Cons.IH[OF tail] False ne show ?thesis by (simp add: kv)
    qed
  qed
qed

lemma amountBody_keys_sorted:
  assumes "amountBody i o' pools rs hop a pa st = Inr st'" "sorted_wrt (<) (map fst (snd st))"
  shows "sorted_wrt (<) (map fst (snd st'))"
proof -
  obtain pct amt us qm us' qm' where e: "pa = (pct, amt)" "st = (us, qm)" "st' = (us', qm')"
    by (cases pa; cases st; cases st') auto
  have unfolded: "amountBody i o' pools rs hop a (pct, amt) (us, qm) =
      (case forEach (routeBody i o' pools hop a pct amt)
              (enumerate 0 rs) (us, (case map_of qm pct of
                      None \<Rightarrow> replicate (length rs) None
                    | Some b \<Rightarrow> b)) of
         Inl e \<Rightarrow> Inl e
       | Inr (quoteUpdates', bucket') \<Rightarrow> Inr (quoteUpdates', setKey pct bucket' qm))"
    unfolding amountBody_def Let_def fst_conv snd_conv ..
  from assms(1) obtain b' where "qm' = setKey pct b' qm"
    unfolding e unfolded by (auto split: sum.splits prod.splits)
  with assms(2) e show ?thesis by (simp add: setKey_keys_sorted)
qed

lemma updateBody_keys_sorted:
  assumes "updateBody engine qps u qm = Inr qm'" "sorted_wrt (<) (map fst qm)"
  shows "sorted_wrt (<) (map fst qm')"
  using assms by (auto simp: updateBody_def setKey_keys_sorted split: option.splits)

lemma hopBody_keys_sorted:
  assumes "hopBody ext i o' pools rs percents amounts a hop qm = Inr qm'"
    and "sorted_wrt (<) (map fst qm)"
  shows "sorted_wrt (<) (map fst qm')"
proof -
  from hopBody_parts[OF assms(1)] obtain us qm1 qps where
    b0: "buildQuoteUpdateRequests i o' pools rs percents amounts hop a qm = Inr (us, qm1)" and
    u0: "updateQuoteMap (swapQuoteWithParams ext) us qps qm1 = Inr qm'"
    by blast
  from b0 have b: "forEach (amountBody i o' pools rs hop a)
        (zip percents amounts) ([], qm) = Inr (us, qm1)"
    by (simp add: buildQuoteUpdateRequests_def)
  have "sorted_wrt (<) (map fst (snd (us, qm1)))"
    by (rule forEach_invariant[OF b, of "\<lambda>st. sorted_wrt (<) (map fst (snd st))"])
       (use assms(2) amountBody_keys_sorted in auto)
  then have s1: "sorted_wrt (<) (map fst qm1)" by simp
  from u0 have u: "forEach (updateBody (swapQuoteWithParams ext) qps) us qm1 = Inr qm'"
    by (simp add: updateQuoteMap_def)
  show ?thesis
    by (rule forEach_invariant[OF u, of "\<lambda>m. sorted_wrt (<) (map fst m)"])
       (use s1 updateBody_keys_sorted in auto)
qed

lemma hopLoop_keys_sorted:
  assumes "hopLoop ext i o' pools rs percents amounts a = Inr qm"
  shows "sorted_wrt (<) (map fst qm)"
proof -
  from assms have run: "forEach (hopBody ext i o' pools rs percents amounts a)
       (iteration rs a) [] = Inr qm"
    by (simp add: hopLoop_def)
  show ?thesis
    by (rule forEach_invariant[OF run, of "\<lambda>m. sorted_wrt (<) (map fst m)"])
       (use hopBody_keys_sorted in auto)
qed

lemma hopLoop_entry:
  assumes run: "hopLoop ext i o' pools rs percents amounts a = Inr qm"
    and pb: "(p, b) \<in> set qm" and eb: "Some e \<in> set b"
  shows "length (InternalRouteQuote.calculatedHops e) = length (InternalRouteQuote.route e) \<and>
         (\<exists>c. length (InternalRouteQuote.calculatedHops e) \<le> c \<and>
              chain c (ordered a (InternalRouteQuote.calculatedHops e)))"
proof -
  let ?M = "fold max (map length rs) 0"
  from hopLoop_keys_sorted[OF run] have "distinct (map fst qm)"
    by (simp add: strict_sorted_iff)
  with pb have m: "map_of qm p = Some b" by simp
  from eb obtain j where j: "j < length b" "b ! j = Some e" by (auto simp: in_set_conv_nth)
  with m have en: "entryAt qm p j = Some e" by (simp add: entryAt_def jsGet_def)
  note st = hopLoop_states[OF run]
  from st m have "length b = length rs" by (simp add: statesOK_def)
  with j have jn: "j < length rs" by simp
  then have LM: "length (rs ! j) \<le> ?M" by (intro fold_max_member) simp
  from st en have r: "InternalRouteQuote.route e = rs ! j"
    and l: "length (InternalRouteQuote.calculatedHops e) = length (rs ! j)"
    and c: "chain (progressOf a ?M ?M (length (rs ! j))) (ordered a (InternalRouteQuote.calculatedHops e))"
    by (simp_all add: statesOK_def)
  have "length (InternalRouteQuote.calculatedHops e) \<le> progressOf a ?M ?M (length (rs ! j))"
    using LM l by (simp add: progressOf_def)
  with r l c show ?thesis by auto
qed

section \<open>An incomplete chain holds exactly one failure\<close>

text \<open>
  Claim C10. When the hop loop has finished, every entry of the quote map whose chain is
  incomplete (fewer successful hops than the route has pools) holds exactly one failed
  hop. So the list \<^verbatim>\<open>quoteFailures\<close> that \<^verbatim>\<open>categorizeQuotes\<close> extracts from it is a
  singleton, the read \<^verbatim>\<open>quoteFailures[0].error\<close> finds an element, and the iteration for
  that entry adds its error kind and does not throw.
\<close>

theorem hopLoop_incomplete_one_failure:
  assumes "hopLoop ext inputTokenMint outputTokenMint pools pairRoutes percents amounts amountIsInput
             = Inr quoteMap"
    and "(pct, bucket) \<in> set quoteMap" and "Some uq \<in> set bucket"
    and "length (successHops (InternalRouteQuote.calculatedHops uq)) \<noteq>
         length (InternalRouteQuote.route uq)"
  shows "length (failedHops (InternalRouteQuote.calculatedHops uq)) = 1 \<and>
         (\<exists>e. failedHops (InternalRouteQuote.calculatedHops uq) = [e] \<and>
              categorizeBody tradeAmount amountIsInput pct (Some uq) st =
                Inr (fst st, insert e (snd st)))"
proof -
  let ?hs = "InternalRouteQuote.calculatedHops uq"
  from hopLoop_entry[OF assms(1,2,3)] obtain c where
    len: "length ?hs = length (InternalRouteQuote.route uq)" and
    c: "length ?hs \<le> c" "chain c (ordered amountIsInput ?hs)"
    by blast
  from chain_done[OF c(2)] c(1)
  have "length (successHops (ordered amountIsInput ?hs)) = length (ordered amountIsInput ?hs) \<or>
        length (failedHops (ordered amountIsInput ?hs)) = 1"
    by auto
  then have "length (successHops ?hs) = length ?hs \<or> length (failedHops ?hs) = 1"
    by (simp add: ordered_counts)
  with assms(4) len have one: "length (failedHops ?hs) = 1" by simp
  then obtain e where e: "failedHops ?hs = [e]"
    by (cases "failedHops ?hs") auto
  with assms(4) have "categorizeBody tradeAmount amountIsInput pct (Some uq) st =
                Inr (fst st, insert e (snd st))"
    by (simp add: categorizeBody_def Let_def)
  with one e show ?thesis by simp
qed

lemma loop_second_hop_fails:
  "(case hopLoop (exCollaborators [''p2/a'']) ''A'' ''B'' exPools [[''p1'', ''p2'']]
           [50, 100] [500, 1000] True of
      Inl e \<Rightarrow> False
    | Inr quoteMap \<Rightarrow>
        (case map_of quoteMap 50 of
           None \<Rightarrow> False
         | Some bucket \<Rightarrow>
             (50, bucket) \<in> set quoteMap \<and>
             (case bucket ! 0 of
                None \<Rightarrow> False
              | Some uq \<Rightarrow>
                  Some uq \<in> set bucket \<and>
                  length (successHops (InternalRouteQuote.calculatedHops uq)) = 1 \<and>
                  InternalRouteQuote.route uq = [''p1'', ''p2''] \<and>
                  failedHops (InternalRouteQuote.calculatedHops uq) =
                    [Some TickArraySequenceInvalid])))"
  by code_simp

theorem hopLoop_incomplete_one_failure_witness:
  "\<exists>quoteMap bucket uq.
     hopLoop (exCollaborators [''p2/a'']) ''A'' ''B'' exPools [[''p1'', ''p2'']]
       [50, 100] [500, 1000] True = Inr quoteMap \<and>
     (50, bucket) \<in> set quoteMap \<and> Some uq \<in> set bucket \<and>
     length (successHops (InternalRouteQuote.calculatedHops uq)) \<noteq>
       length (InternalRouteQuote.route uq) \<and>
     length (failedHops (InternalRouteQuote.calculatedHops uq)) = 1 \<and>
     categorizeBody 1000 True 50 (Some uq) ([], {}) = Inr ([], {Some TickArraySequenceInvalid})"
proof -
  from loop_second_hop_fails obtain quoteMap where
    run: "hopLoop (exCollaborators [''p2/a'']) ''A'' ''B'' exPools [[''p1'', ''p2'']]
            [50, 100] [500, 1000] True = Inr quoteMap"
    by (cases "hopLoop (exCollaborators [''p2/a'']) ''A'' ''B'' exPools [[''p1'', ''p2'']]
            [50, 100] [500, 1000] True") simp_all
  with loop_second_hop_fails obtain bucket where
    look: "map_of quoteMap 50 = Some bucket"
    by (cases "map_of quoteMap 50") simp_all
  with loop_second_hop_fails run obtain uq where
    slot: "bucket ! 0 = Some uq"
    by (cases "bucket ! 0") simp_all
  from loop_second_hop_fails run look slot have
    mem: "(50, bucket) \<in> set quoteMap" and mem2: "Some uq \<in> set bucket" and
    succ: "length (successHops (InternalRouteQuote.calculatedHops uq)) = 1" and
    route: "InternalRouteQuote.route uq = [''p1'', ''p2'']" and
    failed: "failedHops (InternalRouteQuote.calculatedHops uq) = [Some TickArraySequenceInvalid]"
    by simp_all
  have inc: "length (successHops (InternalRouteQuote.calculatedHops uq)) \<noteq>
             length (InternalRouteQuote.route uq)" using succ route by simp
  note t = hopLoop_incomplete_one_failure[OF run mem mem2 inc, of 1000 "([], {})"]
  from t failed have "length (failedHops (InternalRouteQuote.calculatedHops uq)) = 1"
    and "categorizeBody 1000 True 50 (Some uq) ([], {}) = Inr ([], {Some TickArraySequenceInvalid})"
    by auto
  with run mem mem2 inc show ?thesis by blast
qed

section \<open>Failure is sticky along a route\<close>

lemma build_requests:
  assumes "buildQuoteUpdateRequests inputTokenMint outputTokenMint pools rs percents amounts hop a qm
             = Inr (us, qm')"
  shows "\<forall>u \<in> set us. hopIndex u = hop \<and> routeIndex u < length rs \<and>
          (\<exists>amt. (QuoteUpdate.percent u, amt) \<in> set (zip percents amounts) \<and>
             wellBuilt inputTokenMint outputTokenMint a hop amt
               (entryAt qm (QuoteUpdate.percent u) (routeIndex u)) (rs ! routeIndex u) u)"
proof -
  from assms have b: "forEach (amountBody inputTokenMint outputTokenMint pools rs hop a)
        (zip percents amounts) ([], qm) = Inr (us, qm')"
    by (simp add: buildQuoteUpdateRequests_def)
  note be = build_effect[OF b]
  show ?thesis using be by (elim exE conjE) simp
qed

text \<open>
  Claim C4. Every request that \<^verbatim>\<open>buildQuoteUpdateRequests\<close> builds is well built: at
  a non-initial hop its amount and token are those of the adjacent hop already computed
  (the output side for an exact-input trade, the input side for an exact-output trade),
  which succeeded. When the adjacent slot of an entry does not hold a success (it holds a
  failure, or nothing), no request is built for that percentage and route at this hop.
  When the hop loop has finished, no slot that comes after a failure in processing order
  is set.
\<close>

theorem failure_is_sticky:
  "(buildQuoteUpdateRequests inputTokenMint outputTokenMint pools pairRoutes percents amounts hop
      amountIsInput quoteMap = Inr (quoteUpdates, quoteMap') \<longrightarrow>
      (\<forall>u \<in> set quoteUpdates. routeIndex u < length pairRoutes \<and>
          (\<exists>amt. (QuoteUpdate.percent u, amt) \<in> set (zip percents amounts) \<and>
             wellBuilt inputTokenMint outputTokenMint amountIsInput hop amt
               (entryAt quoteMap (QuoteUpdate.percent u) (routeIndex u))
               (pairRoutes ! routeIndex u) u)) \<and>
      (entryAt quoteMap pct ri = Some currentQuote \<and>
       \<not> startingRouteEval amountIsInput hop (pairRoutes ! ri) \<and>
       (\<forall>h. lastHopOf amountIsInput hop (InternalRouteQuote.calculatedHops currentQuote)
              \<noteq> Some (Success h)) \<longrightarrow>
         (\<forall>u \<in> set quoteUpdates. \<not> (QuoteUpdate.percent u = pct \<and> routeIndex u = ri)))) \<and>
   (hopLoop ext inputTokenMint outputTokenMint pools pairRoutes percents amounts amountIsInput
      = Inr finalMap \<and>
    (p, bucket) \<in> set finalMap \<and> Some uq \<in> set bucket \<and>
    ordered amountIsInput (InternalRouteQuote.calculatedHops uq) ! k = Some (Failure errorCode) \<and>
    k < m \<and> m < length (InternalRouteQuote.calculatedHops uq) \<longrightarrow>
      ordered amountIsInput (InternalRouteQuote.calculatedHops uq) ! m = None)"
proof (intro conjI impI)
  assume run: "buildQuoteUpdateRequests inputTokenMint outputTokenMint pools pairRoutes percents
      amounts hop amountIsInput quoteMap = Inr (quoteUpdates, quoteMap')"
  note br = build_requests[OF run]
  show wb: "\<forall>u \<in> set quoteUpdates. routeIndex u < length pairRoutes \<and>
          (\<exists>amt. (QuoteUpdate.percent u, amt) \<in> set (zip percents amounts) \<and>
             wellBuilt inputTokenMint outputTokenMint amountIsInput hop amt
               (entryAt quoteMap (QuoteUpdate.percent u) (routeIndex u))
               (pairRoutes ! routeIndex u) u)"
    using br by simp
  assume adj: "entryAt quoteMap pct ri = Some currentQuote \<and>
       \<not> startingRouteEval amountIsInput hop (pairRoutes ! ri) \<and>
       (\<forall>h. lastHopOf amountIsInput hop (InternalRouteQuote.calculatedHops currentQuote)
              \<noteq> Some (Success h))"
  show "\<forall>u \<in> set quoteUpdates. \<not> (QuoteUpdate.percent u = pct \<and> routeIndex u = ri)"
  proof (intro ballI notI)
    fix u assume u: "u \<in> set quoteUpdates" and tg: "QuoteUpdate.percent u = pct \<and> routeIndex u = ri"
    from wb u tg obtain amt where
      "wellBuilt inputTokenMint outputTokenMint amountIsInput hop amt
         (entryAt quoteMap pct ri) (pairRoutes ! ri) u" by blast
    with adj show False by (auto simp: wellBuilt_def)
  qed
next
  assume h: "hopLoop ext inputTokenMint outputTokenMint pools pairRoutes percents amounts
      amountIsInput = Inr finalMap \<and>
    (p, bucket) \<in> set finalMap \<and> Some uq \<in> set bucket \<and>
    ordered amountIsInput (InternalRouteQuote.calculatedHops uq) ! k = Some (Failure errorCode) \<and>
    k < m \<and> m < length (InternalRouteQuote.calculatedHops uq)"
  then have run: "hopLoop ext inputTokenMint outputTokenMint pools pairRoutes percents amounts
      amountIsInput = Inr finalMap" and pb: "(p, bucket) \<in> set finalMap"
    and ub: "Some uq \<in> set bucket" by simp_all
  from hopLoop_entry[OF run pb ub] obtain c where
    "chain c (ordered amountIsInput (InternalRouteQuote.calculatedHops uq))" by blast
  from chain_after_failure[OF this, of k errorCode m] h
  show "ordered amountIsInput (InternalRouteQuote.calculatedHops uq) ! m = None" by simp
qed

lemma sticky_stage:
  "(case hopBody (exCollaborators [''p5/a'']) ''A'' ''B'' exPools
           [[''p1'', ''p2''], [''p5'', ''p2'']] [50, 100] [500, 1000] True 0 [] of
      Inl e \<Rightarrow> False
    | Inr quoteMap \<Rightarrow>
        (case entryAt quoteMap 50 1 of
           None \<Rightarrow> False
         | Some currentQuote \<Rightarrow>
             lastHopOf True 1 (InternalRouteQuote.calculatedHops currentQuote) =
               Some (Failure (Some TickArraySequenceInvalid)) \<and>
             (case buildQuoteUpdateRequests ''A'' ''B'' exPools
                     [[''p1'', ''p2''], [''p5'', ''p2'']] [50, 100] [500, 1000] 1 True quoteMap of
                Inl e \<Rightarrow> False
              | Inr built \<Rightarrow>
                  map (\<lambda>u. (QuoteUpdate.percent u, routeIndex u,
                             QuoteRequest.tokenAmount (request u), tradeTokenMint (request u)))
                    (fst built) =
                  [(50, 0, 500, ''X''), (100, 0, 1000, ''X'')])))"
  by code_simp

lemma sticky_loop:
  "(case hopLoop (exCollaborators [''p5/a'']) ''A'' ''B'' exPools
           [[''p1'', ''p2''], [''p5'', ''p2'']] [50, 100] [500, 1000] True of
      Inl e \<Rightarrow> False
    | Inr finalMap \<Rightarrow>
        (case map_of finalMap 50 of
           None \<Rightarrow> False
         | Some bucket \<Rightarrow>
             (50, bucket) \<in> set finalMap \<and>
             (case bucket ! 1 of
                None \<Rightarrow> False
              | Some uq \<Rightarrow>
                  Some uq \<in> set bucket \<and>
                  InternalRouteQuote.calculatedHops uq =
                    [Some (Failure (Some TickArraySequenceInvalid)), None])))"
  by code_simp

theorem failure_is_sticky_witness:
  "(\<exists>quoteMap quoteUpdates quoteMap' currentQuote.
      buildQuoteUpdateRequests ''A'' ''B'' exPools [[''p1'', ''p2''], [''p5'', ''p2'']]
        [50, 100] [500, 1000] 1 True quoteMap = Inr (quoteUpdates, quoteMap') \<and>
      entryAt quoteMap 50 1 = Some currentQuote \<and>
      \<not> startingRouteEval True 1 ([[''p1'', ''p2''], [''p5'', ''p2'']] ! 1) \<and>
      lastHopOf True 1 (InternalRouteQuote.calculatedHops currentQuote) =
        Some (Failure (Some TickArraySequenceInvalid)) \<and>
      map (\<lambda>u. (QuoteUpdate.percent u, routeIndex u,
                 QuoteRequest.tokenAmount (request u), tradeTokenMint (request u))) quoteUpdates =
        [(50, 0, 500, ''X''), (100, 0, 1000, ''X'')] \<and>
      (\<forall>u \<in> set quoteUpdates. \<not> (QuoteUpdate.percent u = 50 \<and> routeIndex u = 1))) \<and>
   (\<exists>finalMap bucket uq.
      hopLoop (exCollaborators [''p5/a'']) ''A'' ''B'' exPools
        [[''p1'', ''p2''], [''p5'', ''p2'']] [50, 100] [500, 1000] True = Inr finalMap \<and>
      (50, bucket) \<in> set finalMap \<and> Some uq \<in> set bucket \<and>
      ordered True (InternalRouteQuote.calculatedHops uq) ! 0 =
        Some (Failure (Some TickArraySequenceInvalid)) \<and>
      (0 :: nat) < 1 \<and> 1 < length (InternalRouteQuote.calculatedHops uq) \<and>
      ordered True (InternalRouteQuote.calculatedHops uq) ! 1 = None)"
proof (rule conjI)
  let ?first = "hopBody (exCollaborators [''p5/a'']) ''A'' ''B'' exPools
           [[''p1'', ''p2''], [''p5'', ''p2'']] [50, 100] [500, 1000] True 0 []"
  from sticky_stage obtain quoteMap where first: "?first = Inr quoteMap"
    by (cases ?first) simp_all
  with sticky_stage obtain currentQuote where cq: "entryAt quoteMap 50 1 = Some currentQuote"
    by (cases "entryAt quoteMap 50 1") simp_all
  let ?build = "buildQuoteUpdateRequests ''A'' ''B'' exPools
                     [[''p1'', ''p2''], [''p5'', ''p2'']] [50, 100] [500, 1000] 1 True quoteMap"
  from sticky_stage first cq have
    last: "lastHopOf True 1 (InternalRouteQuote.calculatedHops currentQuote) =
               Some (Failure (Some TickArraySequenceInvalid))" by simp
  from sticky_stage first cq obtain built where built: "?build = Inr built"
    by (cases ?build) simp_all
  obtain quoteUpdates quoteMap' where b: "built = (quoteUpdates, quoteMap')" by (cases built)
  from sticky_stage first cq built b have
    listed: "map (\<lambda>u. (QuoteUpdate.percent u, routeIndex u,
                 QuoteRequest.tokenAmount (request u), tradeTokenMint (request u))) quoteUpdates =
        [(50, 0, 500, ''X''), (100, 0, 1000, ''X'')]" by simp
  have ns: "\<not> startingRouteEval True 1 ([[''p1'', ''p2''], [''p5'', ''p2'']] ! 1)"
    by (simp add: startingRouteEval_def)
  have nl: "\<forall>h. lastHopOf True 1 (InternalRouteQuote.calculatedHops currentQuote)
              \<noteq> Some (Success h)" using last by simp
  note t = failure_is_sticky[where inputTokenMint = "''A''" and outputTokenMint = "''B''"
      and pools = exPools and pairRoutes = "[[''p1'', ''p2''], [''p5'', ''p2'']]"
      and percents = "[50, 100]" and amounts = "[500, 1000]" and hop = 1
      and amountIsInput = True and quoteMap = quoteMap and quoteUpdates = quoteUpdates
      and quoteMap' = quoteMap' and pct = 50 and ri = 1 and currentQuote = currentQuote]
  have beq: "buildQuoteUpdateRequests ''A'' ''B'' exPools
                     [[''p1'', ''p2''], [''p5'', ''p2'']] [50, 100] [500, 1000] 1 True quoteMap
               = Inr (quoteUpdates, quoteMap')" using built b by simp
  from t have "buildQuoteUpdateRequests ''A'' ''B'' exPools
                     [[''p1'', ''p2''], [''p5'', ''p2'']] [50, 100] [500, 1000] 1 True quoteMap
               = Inr (quoteUpdates, quoteMap') \<longrightarrow>
      (\<forall>u \<in> set quoteUpdates. routeIndex u < length [[''p1'', ''p2''], [''p5'', ''p2'']] \<and>
          (\<exists>amt. (QuoteUpdate.percent u, amt) \<in> set (zip [50, 100] [500, 1000]) \<and>
             wellBuilt ''A'' ''B'' True 1 amt
               (entryAt quoteMap (QuoteUpdate.percent u) (routeIndex u))
               ([[''p1'', ''p2''], [''p5'', ''p2'']] ! routeIndex u) u)) \<and>
      (entryAt quoteMap 50 1 = Some currentQuote \<and>
       \<not> startingRouteEval True 1 ([[''p1'', ''p2''], [''p5'', ''p2'']] ! 1) \<and>
       (\<forall>h. lastHopOf True 1 (InternalRouteQuote.calculatedHops currentQuote)
              \<noteq> Some (Success h)) \<longrightarrow>
         (\<forall>u \<in> set quoteUpdates. \<not> (QuoteUpdate.percent u = 50 \<and> routeIndex u = 1)))"
    by (rule conjunct1)
  from this beq have "(\<forall>u \<in> set quoteUpdates. routeIndex u < length [[''p1'', ''p2''], [''p5'', ''p2'']] \<and>
          (\<exists>amt. (QuoteUpdate.percent u, amt) \<in> set (zip [50, 100] [500, 1000]) \<and>
             wellBuilt ''A'' ''B'' True 1 amt
               (entryAt quoteMap (QuoteUpdate.percent u) (routeIndex u))
               ([[''p1'', ''p2''], [''p5'', ''p2'']] ! routeIndex u) u)) \<and>
      (entryAt quoteMap 50 1 = Some currentQuote \<and>
       \<not> startingRouteEval True 1 ([[''p1'', ''p2''], [''p5'', ''p2'']] ! 1) \<and>
       (\<forall>h. lastHopOf True 1 (InternalRouteQuote.calculatedHops currentQuote)
              \<noteq> Some (Success h)) \<longrightarrow>
         (\<forall>u \<in> set quoteUpdates. \<not> (QuoteUpdate.percent u = 50 \<and> routeIndex u = 1)))"
    by (rule mp)
  then have "entryAt quoteMap 50 1 = Some currentQuote \<and>
       \<not> startingRouteEval True 1 ([[''p1'', ''p2''], [''p5'', ''p2'']] ! 1) \<and>
       (\<forall>h. lastHopOf True 1 (InternalRouteQuote.calculatedHops currentQuote)
              \<noteq> Some (Success h)) \<longrightarrow>
         (\<forall>u \<in> set quoteUpdates. \<not> (QuoteUpdate.percent u = 50 \<and> routeIndex u = 1))"
    by (rule conjunct2)
  moreover have "entryAt quoteMap 50 1 = Some currentQuote \<and>
       \<not> startingRouteEval True 1 ([[''p1'', ''p2''], [''p5'', ''p2'']] ! 1) \<and>
       (\<forall>h. lastHopOf True 1 (InternalRouteQuote.calculatedHops currentQuote)
              \<noteq> Some (Success h))"
    using cq ns nl by (intro conjI)
  ultimately
  have none: "\<forall>u \<in> set quoteUpdates. \<not> (QuoteUpdate.percent u = 50 \<and> routeIndex u = 1)"
    by (rule mp)
  have "buildQuoteUpdateRequests ''A'' ''B'' exPools [[''p1'', ''p2''], [''p5'', ''p2'']]
        [50, 100] [500, 1000] 1 True quoteMap = Inr (quoteUpdates, quoteMap') \<and>
      entryAt quoteMap 50 1 = Some currentQuote \<and>
      \<not> startingRouteEval True 1 ([[''p1'', ''p2''], [''p5'', ''p2'']] ! 1) \<and>
      lastHopOf True 1 (InternalRouteQuote.calculatedHops currentQuote) =
        Some (Failure (Some TickArraySequenceInvalid)) \<and>
      map (\<lambda>u. (QuoteUpdate.percent u, routeIndex u,
                 QuoteRequest.tokenAmount (request u), tradeTokenMint (request u))) quoteUpdates =
        [(50, 0, 500, ''X''), (100, 0, 1000, ''X'')] \<and>
      (\<forall>u \<in> set quoteUpdates. \<not> (QuoteUpdate.percent u = 50 \<and> routeIndex u = 1))"
    using beq cq ns last listed none by (intro conjI)
  then show "\<exists>quoteMap quoteUpdates quoteMap' currentQuote.
      buildQuoteUpdateRequests ''A'' ''B'' exPools [[''p1'', ''p2''], [''p5'', ''p2'']]
        [50, 100] [500, 1000] 1 True quoteMap = Inr (quoteUpdates, quoteMap') \<and>
      entryAt quoteMap 50 1 = Some currentQuote \<and>
      \<not> startingRouteEval True 1 ([[''p1'', ''p2''], [''p5'', ''p2'']] ! 1) \<and>
      lastHopOf True 1 (InternalRouteQuote.calculatedHops currentQuote) =
        Some (Failure (Some TickArraySequenceInvalid)) \<and>
      map (\<lambda>u. (QuoteUpdate.percent u, routeIndex u,
                 QuoteRequest.tokenAmount (request u), tradeTokenMint (request u))) quoteUpdates =
        [(50, 0, 500, ''X''), (100, 0, 1000, ''X'')] \<and>
      (\<forall>u \<in> set quoteUpdates. \<not> (QuoteUpdate.percent u = 50 \<and> routeIndex u = 1))"
    by (intro exI)
next
  let ?loop = "hopLoop (exCollaborators [''p5/a'']) ''A'' ''B'' exPools
        [[''p1'', ''p2''], [''p5'', ''p2'']] [50, 100] [500, 1000] True"
  from sticky_loop obtain finalMap where run: "?loop = Inr finalMap"
    by (cases ?loop) simp_all
  with sticky_loop obtain bucket where look: "map_of finalMap 50 = Some bucket"
    by (cases "map_of finalMap 50") simp_all
  with sticky_loop run obtain uq where slot: "bucket ! 1 = Some uq"
    by (cases "bucket ! 1") simp_all
  from sticky_loop run look slot have
    mem: "(50, bucket) \<in> set finalMap" and mem2: "Some uq \<in> set bucket" and
    hs: "InternalRouteQuote.calculatedHops uq =
           [Some (Failure (Some TickArraySequenceInvalid)), None]"
    by simp_all
  have at0: "ordered True (InternalRouteQuote.calculatedHops uq) ! 0 =
        Some (Failure (Some TickArraySequenceInvalid))" by (simp add: hs ordered_def)
  have len: "1 < length (InternalRouteQuote.calculatedHops uq)" by (simp add: hs)
  note t = failure_is_sticky[where ext = "exCollaborators [''p5/a'']"
      and inputTokenMint = "''A''" and outputTokenMint = "''B''"
      and pools = exPools and pairRoutes = "[[''p1'', ''p2''], [''p5'', ''p2'']]"
      and percents = "[50, 100]" and amounts = "[500, 1000]"
      and amountIsInput = True and finalMap = finalMap and p = 50 and bucket = bucket
      and uq = uq and k = 0 and m = 1 and errorCode = "Some TickArraySequenceInvalid"]
  from t have "hopLoop (exCollaborators [''p5/a'']) ''A'' ''B'' exPools
        [[''p1'', ''p2''], [''p5'', ''p2'']] [50, 100] [500, 1000] True = Inr finalMap \<and>
      (50, bucket) \<in> set finalMap \<and> Some uq \<in> set bucket \<and>
      ordered True (InternalRouteQuote.calculatedHops uq) ! 0 =
        Some (Failure (Some TickArraySequenceInvalid)) \<and>
      (0 :: nat) < 1 \<and> 1 < length (InternalRouteQuote.calculatedHops uq) \<longrightarrow>
      ordered True (InternalRouteQuote.calculatedHops uq) ! 1 = None"
    by (rule conjunct2)
  moreover have "hopLoop (exCollaborators [''p5/a'']) ''A'' ''B'' exPools
        [[''p1'', ''p2''], [''p5'', ''p2'']] [50, 100] [500, 1000] True = Inr finalMap \<and>
      (50, bucket) \<in> set finalMap \<and> Some uq \<in> set bucket \<and>
      ordered True (InternalRouteQuote.calculatedHops uq) ! 0 =
        Some (Failure (Some TickArraySequenceInvalid)) \<and>
      (0 :: nat) < 1 \<and> 1 < length (InternalRouteQuote.calculatedHops uq)"
    using run mem mem2 at0 len by simp
  ultimately have "ordered True (InternalRouteQuote.calculatedHops uq) ! 1 = None"
    by (rule mp)
  with run mem mem2 at0 len
  have "hopLoop (exCollaborators [''p5/a'']) ''A'' ''B'' exPools
        [[''p1'', ''p2''], [''p5'', ''p2'']] [50, 100] [500, 1000] True = Inr finalMap \<and>
      (50, bucket) \<in> set finalMap \<and> Some uq \<in> set bucket \<and>
      ordered True (InternalRouteQuote.calculatedHops uq) ! 0 =
        Some (Failure (Some TickArraySequenceInvalid)) \<and>
      (0 :: nat) < 1 \<and> 1 < length (InternalRouteQuote.calculatedHops uq) \<and>
      ordered True (InternalRouteQuote.calculatedHops uq) ! 1 = None"
    by simp
  then show "\<exists>finalMap bucket uq.
      hopLoop (exCollaborators [''p5/a'']) ''A'' ''B'' exPools
        [[''p1'', ''p2''], [''p5'', ''p2'']] [50, 100] [500, 1000] True = Inr finalMap \<and>
      (50, bucket) \<in> set finalMap \<and> Some uq \<in> set bucket \<and>
      ordered True (InternalRouteQuote.calculatedHops uq) ! 0 =
        Some (Failure (Some TickArraySequenceInvalid)) \<and>
      (0 :: nat) < 1 \<and> 1 < length (InternalRouteQuote.calculatedHops uq) \<and>
      ordered True (InternalRouteQuote.calculatedHops uq) ! 1 = None"
    by (intro exI)
qed

section \<open>Results are written back by position\<close>

lemma updateLoop_total:
  assumes "\<forall>u \<in> set us. entryAt qm (QuoteUpdate.percent u) (routeIndex u) \<noteq> None"
  shows "\<exists>qm'. forEach (updateBody engine qps) us qm = Inr qm'"
  using assms
proof (induction us arbitrary: qm)
  case Nil
  then show ?case by simp
next
  case (Cons u us)
  from Cons.prems obtain e where e: "entryAt qm (QuoteUpdate.percent u) (routeIndex u) = Some e"
    by auto
  from entryAt_SomeD[OF e] obtain b where b: "map_of qm (QuoteUpdate.percent u) = Some b"
    and j: "routeIndex u < length b" and bj: "b ! routeIndex u = Some e" by blast
  then have "jsGet b (routeIndex u) = Some e" by (simp add: jsGet_def)
  with b obtain qm1 where one: "updateBody engine qps u qm = Inr qm1"
    by (simp add: updateBody_def)
  from updateBody_effect[OF one] obtain e0 where
    s1: "\<And>p j. entryAt qm1 p j =
        (if p = QuoteUpdate.percent u \<and> j = routeIndex u
         then Some (e0\<lparr> InternalRouteQuote.calculatedHops :=
                jsSet (InternalRouteQuote.calculatedHops e0) (hopIndex u)
                  (hopResultFor engine qps u) \<rparr>)
         else entryAt qm p j)"
    by blast
  have "\<forall>v \<in> set us. entryAt qm1 (QuoteUpdate.percent v) (routeIndex v) \<noteq> None"
    using Cons.prems by (simp add: s1)
  from Cons.IH[OF this] obtain qm' where "forEach (updateBody engine qps) us qm1 = Inr qm'"
    by blast
  with one show ?case by simp
qed

lemma hopResultFor_at:
  assumes "quoteIndex u = m" "m < length qps"
  shows "(\<forall>errorCode. engine (qps ! m) = Inl errorCode \<longrightarrow>
            hopResultFor engine qps u = Failure errorCode) \<and>
         (\<forall>q. engine (qps ! m) = Inr q \<longrightarrow>
            (\<exists>h. hopResultFor engine qps u = Success h \<and> Hop.quote h = q \<and>
                 Hop.percent h = QuoteUpdate.percent u \<and>
                 Hop.whirlpool h = QuoteUpdate.address u \<and>
                 Hop.amountIn h =
                   (if SwapQuoteParam.amountSpecifiedIsInput (qps ! m)
                    then SwapQuoteParam.tokenAmount (qps ! m) else otherAmountThreshold q) \<and>
                 Hop.amountOut h =
                   (if SwapQuoteParam.amountSpecifiedIsInput (qps ! m)
                    then otherAmountThreshold q else SwapQuoteParam.tokenAmount (qps ! m))))"
  using assms by (simp add: hopResultFor_def nthOpt_def Let_def)

text \<open>
  Claim C5. \<^verbatim>\<open>updateQuoteMap\<close> applies the results of one batch by position. When every
  update names an entry of the quote map, the updates name distinct slots, each
  \<^verbatim>\<open>quoteIndex\<close> is the position of its update and there is one parameter per update, the
  function returns, and for every position \<open>m\<close> the slot (percentage, route, hop) of update
  \<open>m\<close> holds the result of the engine on parameter \<open>m\<close>: a failure tagged with the engine's
  error code when the engine threw, a success carrying the engine's quote otherwise. An
  error of the engine for one update never keeps another update from its result.
\<close>

theorem updateQuoteMap_by_position:
  assumes "\<forall>u \<in> set quoteUpdates. entryAt quoteMap (QuoteUpdate.percent u) (routeIndex u) \<noteq> None"
    and "distinct (map (\<lambda>u. (QuoteUpdate.percent u, routeIndex u, hopIndex u)) quoteUpdates)"
    and "\<forall>m<length quoteUpdates. quoteIndex (quoteUpdates ! m) = m"
    and "length quoteParams = length quoteUpdates"
  shows "\<exists>quoteMap'.
     updateQuoteMap engine quoteUpdates quoteParams quoteMap = Inr quoteMap' \<and>
     (\<forall>m<length quoteUpdates.
        \<exists>uq. entryAt quoteMap' (QuoteUpdate.percent (quoteUpdates ! m)) (routeIndex (quoteUpdates ! m))
               = Some uq \<and>
          (\<forall>errorCode. engine (quoteParams ! m) = Inl errorCode \<longrightarrow>
             jsGet (InternalRouteQuote.calculatedHops uq) (hopIndex (quoteUpdates ! m)) =
               Some (Failure errorCode)) \<and>
          (\<forall>q. engine (quoteParams ! m) = Inr q \<longrightarrow>
             (\<exists>h. jsGet (InternalRouteQuote.calculatedHops uq) (hopIndex (quoteUpdates ! m)) =
                    Some (Success h) \<and>
                  Hop.quote h = q \<and>
                  Hop.percent h = QuoteUpdate.percent (quoteUpdates ! m) \<and>
                  Hop.whirlpool h = QuoteUpdate.address (quoteUpdates ! m) \<and>
                  Hop.amountIn h =
                    (if SwapQuoteParam.amountSpecifiedIsInput (quoteParams ! m)
                     then SwapQuoteParam.tokenAmount (quoteParams ! m)
                     else otherAmountThreshold q) \<and>
                  Hop.amountOut h =
                    (if SwapQuoteParam.amountSpecifiedIsInput (quoteParams ! m)
                     then otherAmountThreshold q
                     else SwapQuoteParam.tokenAmount (quoteParams ! m)))))"
proof -
  let ?res = "hopResultFor engine quoteParams"
  let ?target = "\<lambda>u. (QuoteUpdate.percent u, routeIndex u, hopIndex u)"
  from updateLoop_total[OF assms(1)] obtain quoteMap' where
    run: "forEach (updateBody engine quoteParams) quoteUpdates quoteMap = Inr quoteMap'" by blast
  note ue = updateLoop_effect[OF run]
  have U4: "\<forall>p j e. entryAt quoteMap p j = Some e \<longrightarrow>
            (\<exists>e'. entryAt quoteMap' p j = Some e' \<and> rewritten ?res quoteUpdates p j e e')"
    using ue by (elim conjE) simp
  have inj: "inj_on ?target (set quoteUpdates)"
    using assms(2) by (simp add: distinct_map)
  have slot: "\<exists>uq. entryAt quoteMap' (QuoteUpdate.percent (quoteUpdates ! m))
                      (routeIndex (quoteUpdates ! m)) = Some uq \<and>
          jsGet (InternalRouteQuote.calculatedHops uq) (hopIndex (quoteUpdates ! m)) =
            Some (?res (quoteUpdates ! m))"
    if m: "m < length quoteUpdates" for m
  proof -
    let ?u = "quoteUpdates ! m"
    from m have mem: "?u \<in> set quoteUpdates" by simp
    with assms(1) obtain e where e: "entryAt quoteMap (QuoteUpdate.percent ?u) (routeIndex ?u) = Some e"
      by auto
    with U4 obtain uq where uq: "entryAt quoteMap' (QuoteUpdate.percent ?u) (routeIndex ?u) = Some uq"
      and rw: "rewritten ?res quoteUpdates (QuoteUpdate.percent ?u) (routeIndex ?u) e uq"
      by blast
    from mem have "\<exists>v \<in> set quoteUpdates. QuoteUpdate.percent v = QuoteUpdate.percent ?u \<and>
        routeIndex v = routeIndex ?u \<and> hopIndex v = hopIndex ?u" by blast
    from rewritten_written[OF rw this] obtain v where v: "v \<in> set quoteUpdates"
      "QuoteUpdate.percent v = QuoteUpdate.percent ?u" "routeIndex v = routeIndex ?u"
      "hopIndex v = hopIndex ?u"
      "jsGet (InternalRouteQuote.calculatedHops uq) (hopIndex ?u) = Some (?res v)"
      by blast
    from v(2,3,4) have same: "?target v = ?target ?u" by simp
    from inj same v(1) mem have "v = ?u" by (rule inj_onD)
    with v(5) uq show ?thesis by simp
  qed
  have "\<forall>m<length quoteUpdates.
        \<exists>uq. entryAt quoteMap' (QuoteUpdate.percent (quoteUpdates ! m)) (routeIndex (quoteUpdates ! m))
               = Some uq \<and>
          (\<forall>errorCode. engine (quoteParams ! m) = Inl errorCode \<longrightarrow>
             jsGet (InternalRouteQuote.calculatedHops uq) (hopIndex (quoteUpdates ! m)) =
               Some (Failure errorCode)) \<and>
          (\<forall>q. engine (quoteParams ! m) = Inr q \<longrightarrow>
             (\<exists>h. jsGet (InternalRouteQuote.calculatedHops uq) (hopIndex (quoteUpdates ! m)) =
                    Some (Success h) \<and>
                  Hop.quote h = q \<and>
                  Hop.percent h = QuoteUpdate.percent (quoteUpdates ! m) \<and>
                  Hop.whirlpool h = QuoteUpdate.address (quoteUpdates ! m) \<and>
                  Hop.amountIn h =
                    (if SwapQuoteParam.amountSpecifiedIsInput (quoteParams ! m)
                     then SwapQuoteParam.tokenAmount (quoteParams ! m)
                     else otherAmountThreshold q) \<and>
                  Hop.amountOut h =
                    (if SwapQuoteParam.amountSpecifiedIsInput (quoteParams ! m)
                     then otherAmountThreshold q
                     else SwapQuoteParam.tokenAmount (quoteParams ! m))))"
  proof (intro allI impI)
    fix m assume m: "m < length quoteUpdates"
    from slot[OF m] obtain uq where
      uq: "entryAt quoteMap' (QuoteUpdate.percent (quoteUpdates ! m))
             (routeIndex (quoteUpdates ! m)) = Some uq" and
      at: "jsGet (InternalRouteQuote.calculatedHops uq) (hopIndex (quoteUpdates ! m)) =
            Some (?res (quoteUpdates ! m))" by blast
    from assms(3) m have qi: "quoteIndex (quoteUpdates ! m) = m" by simp
    from m assms(4) have ml: "m < length quoteParams" by simp
    note hr = hopResultFor_at[OF qi ml, of engine]
    show "\<exists>uq. entryAt quoteMap' (QuoteUpdate.percent (quoteUpdates ! m)) (routeIndex (quoteUpdates ! m))
               = Some uq \<and>
          (\<forall>errorCode. engine (quoteParams ! m) = Inl errorCode \<longrightarrow>
             jsGet (InternalRouteQuote.calculatedHops uq) (hopIndex (quoteUpdates ! m)) =
               Some (Failure errorCode)) \<and>
          (\<forall>q. engine (quoteParams ! m) = Inr q \<longrightarrow>
             (\<exists>h. jsGet (InternalRouteQuote.calculatedHops uq) (hopIndex (quoteUpdates ! m)) =
                    Some (Success h) \<and>
                  Hop.quote h = q \<and>
                  Hop.percent h = QuoteUpdate.percent (quoteUpdates ! m) \<and>
                  Hop.whirlpool h = QuoteUpdate.address (quoteUpdates ! m) \<and>
                  Hop.amountIn h =
                    (if SwapQuoteParam.amountSpecifiedIsInput (quoteParams ! m)
                     then SwapQuoteParam.tokenAmount (quoteParams ! m)
                     else otherAmountThreshold q) \<and>
                  Hop.amountOut h =
                    (if SwapQuoteParam.amountSpecifiedIsInput (quoteParams ! m)
                     then otherAmountThreshold q
                     else SwapQuoteParam.tokenAmount (quoteParams ! m))))"
      apply (rule exI[of _ uq])
      using uq hr by (simp add: at)
  qed
  with run show ?thesis by (auto simp: updateQuoteMap_def)
qed


lemma engine_on_updates:
  "exEngine [''p4/a''] (exParam (request (exUpdate 0 0 ''p3''))) =
     Inr \<lparr> otherAmountThreshold = 1000 \<rparr> \<and>
   exEngine [''p4/a''] (exParam (request (exUpdate 1 1 ''p4''))) =
     Inl (Some TickArraySequenceInvalid)"
  by code_simp

theorem updateQuoteMap_by_position_witness:
  "entryAt [(100, [Some (freshQuote 100 [''p3'']), Some (freshQuote 100 [''p4''])])]
     (QuoteUpdate.percent (exUpdate 0 0 ''p3'')) (routeIndex (exUpdate 0 0 ''p3'')) =
     Some (freshQuote 100 [''p3'']) \<and>
   entryAt [(100, [Some (freshQuote 100 [''p3'']), Some (freshQuote 100 [''p4''])])]
     (QuoteUpdate.percent (exUpdate 1 1 ''p4'')) (routeIndex (exUpdate 1 1 ''p4'')) =
     Some (freshQuote 100 [''p4'']) \<and>
   distinct (map (\<lambda>u. (QuoteUpdate.percent u, routeIndex u, hopIndex u))
     [exUpdate 0 0 ''p3'', exUpdate 1 1 ''p4'']) \<and>
   quoteIndex ([exUpdate 0 0 ''p3'', exUpdate 1 1 ''p4''] ! 0) = 0 \<and>
   quoteIndex ([exUpdate 0 0 ''p3'', exUpdate 1 1 ''p4''] ! 1) = 1 \<and>
   length (map (\<lambda>u. exParam (request u)) [exUpdate 0 0 ''p3'', exUpdate 1 1 ''p4'']) =
     length [exUpdate 0 0 ''p3'', exUpdate 1 1 ''p4''] \<and>
   (\<exists>quoteMap' uq0 uq1 h.
      updateQuoteMap (exEngine [''p4/a'']) [exUpdate 0 0 ''p3'', exUpdate 1 1 ''p4'']
        (map (\<lambda>u. exParam (request u)) [exUpdate 0 0 ''p3'', exUpdate 1 1 ''p4''])
        [(100, [Some (freshQuote 100 [''p3'']), Some (freshQuote 100 [''p4''])])] = Inr quoteMap' \<and>
      entryAt quoteMap' 100 0 = Some uq0 \<and>
      jsGet (InternalRouteQuote.calculatedHops uq0) 0 = Some (Success h) \<and>
      Hop.quote h = \<lparr> otherAmountThreshold = 1000 \<rparr> \<and>
      Hop.amountIn h = 1000 \<and> Hop.amountOut h = 1000 \<and>
      entryAt quoteMap' 100 1 = Some uq1 \<and>
      jsGet (InternalRouteQuote.calculatedHops uq1) 0 =
        Some (Failure (Some TickArraySequenceInvalid)))"
proof -
  let ?us = "[exUpdate 0 0 ''p3'', exUpdate 1 1 ''p4'']"
  let ?qps = "map (\<lambda>u. exParam (request u)) ?us"
  let ?qm = "[(100, [Some (freshQuote 100 [''p3'']), Some (freshQuote 100 [''p4''])])]"
  have b0: "entryAt ?qm (QuoteUpdate.percent (exUpdate 0 0 ''p3'')) (routeIndex (exUpdate 0 0 ''p3'')) =
     Some (freshQuote 100 [''p3''])"
    by (simp add: exUpdate_def entryAt_def jsGet_def)
  have b1: "entryAt ?qm (QuoteUpdate.percent (exUpdate 1 1 ''p4'')) (routeIndex (exUpdate 1 1 ''p4'')) =
     Some (freshQuote 100 [''p4''])"
    by (simp add: exUpdate_def entryAt_def jsGet_def)
  have a1: "\<forall>u \<in> set ?us. entryAt ?qm (QuoteUpdate.percent u) (routeIndex u) \<noteq> None"
    using b0 b1 by simp
  have a2: "distinct (map (\<lambda>u. (QuoteUpdate.percent u, routeIndex u, hopIndex u)) ?us)"
    by (simp add: exUpdate_def)
  have a3: "\<forall>m<length ?us. quoteIndex (?us ! m) = m"
    by (auto simp: less_Suc_eq exUpdate_def)
  have a4: "length ?qps = length ?us" by simp
  have i0: "quoteIndex (?us ! 0) = 0" by (simp add: exUpdate_def)
  have i1: "quoteIndex (?us ! 1) = 1" by (simp add: exUpdate_def)
  from updateQuoteMap_by_position[OF a1 a2 a3 a4, of "exEngine [''p4/a'']"]
  obtain quoteMap' where run: "updateQuoteMap (exEngine [''p4/a'']) ?us ?qps ?qm = Inr quoteMap'"
    and each: "\<forall>m<length ?us.
        \<exists>uq. entryAt quoteMap' (QuoteUpdate.percent (?us ! m)) (routeIndex (?us ! m)) = Some uq \<and>
          (\<forall>errorCode. exEngine [''p4/a''] (?qps ! m) = Inl errorCode \<longrightarrow>
             jsGet (InternalRouteQuote.calculatedHops uq) (hopIndex (?us ! m)) =
               Some (Failure errorCode)) \<and>
          (\<forall>q. exEngine [''p4/a''] (?qps ! m) = Inr q \<longrightarrow>
             (\<exists>h. jsGet (InternalRouteQuote.calculatedHops uq) (hopIndex (?us ! m)) =
                    Some (Success h) \<and>
                  Hop.quote h = q \<and>
                  Hop.percent h = QuoteUpdate.percent (?us ! m) \<and>
                  Hop.whirlpool h = QuoteUpdate.address (?us ! m) \<and>
                  Hop.amountIn h =
                    (if SwapQuoteParam.amountSpecifiedIsInput (?qps ! m)
                     then SwapQuoteParam.tokenAmount (?qps ! m)
                     else otherAmountThreshold q) \<and>
                  Hop.amountOut h =
                    (if SwapQuoteParam.amountSpecifiedIsInput (?qps ! m)
                     then otherAmountThreshold q
                     else SwapQuoteParam.tokenAmount (?qps ! m))))"
    by (rule exE) (rule that, erule conjunct1, erule conjunct2)
  have e0: "exEngine [''p4/a''] (exParam (request (exUpdate 0 0 ''p3''))) =
     Inr \<lparr> otherAmountThreshold = 1000 \<rparr>"
    using engine_on_updates by (rule conjunct1)
  have e1: "exEngine [''p4/a''] (exParam (request (exUpdate 1 1 ''p4''))) =
     Inl (Some TickArraySequenceInvalid)"
    using engine_on_updates by (rule conjunct2)
  have p0: "SwapQuoteParam.amountSpecifiedIsInput (exParam (request (exUpdate 0 0 ''p3''))) \<and>
     SwapQuoteParam.tokenAmount (exParam (request (exUpdate 0 0 ''p3''))) = 1000"
    by code_simp
  have t0: "QuoteUpdate.percent (exUpdate 0 0 ''p3'') = 100 \<and> routeIndex (exUpdate 0 0 ''p3'') = 0 \<and>
     hopIndex (exUpdate 0 0 ''p3'') = 0"
    by (simp add: exUpdate_def)
  have t1: "QuoteUpdate.percent (exUpdate 1 1 ''p4'') = 100 \<and> routeIndex (exUpdate 1 1 ''p4'') = 1 \<and>
     hopIndex (exUpdate 1 1 ''p4'') = 0"
    by (simp add: exUpdate_def)
  from each have "\<exists>uq. entryAt quoteMap' (QuoteUpdate.percent (?us ! 0)) (routeIndex (?us ! 0)) = Some uq \<and>
          (\<forall>errorCode. exEngine [''p4/a''] (?qps ! 0) = Inl errorCode \<longrightarrow>
             jsGet (InternalRouteQuote.calculatedHops uq) (hopIndex (?us ! 0)) =
               Some (Failure errorCode)) \<and>
          (\<forall>q. exEngine [''p4/a''] (?qps ! 0) = Inr q \<longrightarrow>
             (\<exists>h. jsGet (InternalRouteQuote.calculatedHops uq) (hopIndex (?us ! 0)) =
                    Some (Success h) \<and>
                  Hop.quote h = q \<and>
                  Hop.percent h = QuoteUpdate.percent (?us ! 0) \<and>
                  Hop.whirlpool h = QuoteUpdate.address (?us ! 0) \<and>
                  Hop.amountIn h =
                    (if SwapQuoteParam.amountSpecifiedIsInput (?qps ! 0)
                     then SwapQuoteParam.tokenAmount (?qps ! 0)
                     else otherAmountThreshold q) \<and>
                  Hop.amountOut h =
                    (if SwapQuoteParam.amountSpecifiedIsInput (?qps ! 0)
                     then otherAmountThreshold q
                     else SwapQuoteParam.tokenAmount (?qps ! 0))))"
    by (rule allE[of _ "0 :: nat"]) simp
  then obtain uq0 h where first:
      "entryAt quoteMap' 100 0 = Some uq0"
      "jsGet (InternalRouteQuote.calculatedHops uq0) 0 = Some (Success h)"
      "Hop.quote h = \<lparr> otherAmountThreshold = 1000 \<rparr>"
      "Hop.amountIn h = 1000" "Hop.amountOut h = 1000"
    by (auto simp: e0 p0 t0)
  have l1: "(1 :: nat) < length ?us" by simp
  have q1: "exEngine [''p4/a''] (?qps ! 1) = Inl (Some TickArraySequenceInvalid)"
    using e1 by simp
  have u1: "QuoteUpdate.percent (?us ! 1) = 100" "routeIndex (?us ! 1) = 1" "hopIndex (?us ! 1) = 0"
    using t1 by simp_all
  from each have "(1 :: nat) < length ?us \<longrightarrow>
     (\<exists>uq. entryAt quoteMap' (QuoteUpdate.percent (?us ! 1)) (routeIndex (?us ! 1)) = Some uq \<and>
          (\<forall>errorCode. exEngine [''p4/a''] (?qps ! 1) = Inl errorCode \<longrightarrow>
             jsGet (InternalRouteQuote.calculatedHops uq) (hopIndex (?us ! 1)) =
               Some (Failure errorCode)) \<and>
          (\<forall>q. exEngine [''p4/a''] (?qps ! 1) = Inr q \<longrightarrow>
             (\<exists>h. jsGet (InternalRouteQuote.calculatedHops uq) (hopIndex (?us ! 1)) =
                    Some (Success h) \<and>
                  Hop.quote h = q \<and>
                  Hop.percent h = QuoteUpdate.percent (?us ! 1) \<and>
                  Hop.whirlpool h = QuoteUpdate.address (?us ! 1) \<and>
                  Hop.amountIn h =
                    (if SwapQuoteParam.amountSpecifiedIsInput (?qps ! 1)
                     then SwapQuoteParam.tokenAmount (?qps ! 1)
                     else otherAmountThreshold q) \<and>
                  Hop.amountOut h =
                    (if SwapQuoteParam.amountSpecifiedIsInput (?qps ! 1)
                     then otherAmountThreshold q
                     else SwapQuoteParam.tokenAmount (?qps ! 1)))))"
    by (rule spec)
  from this l1 have "\<exists>uq. entryAt quoteMap' (QuoteUpdate.percent (?us ! 1)) (routeIndex (?us ! 1)) = Some uq \<and>
          (\<forall>errorCode. exEngine [''p4/a''] (?qps ! 1) = Inl errorCode \<longrightarrow>
             jsGet (InternalRouteQuote.calculatedHops uq) (hopIndex (?us ! 1)) =
               Some (Failure errorCode)) \<and>
          (\<forall>q. exEngine [''p4/a''] (?qps ! 1) = Inr q \<longrightarrow>
             (\<exists>h. jsGet (InternalRouteQuote.calculatedHops uq) (hopIndex (?us ! 1)) =
                    Some (Success h) \<and>
                  Hop.quote h = q \<and>
                  Hop.percent h = QuoteUpdate.percent (?us ! 1) \<and>
                  Hop.whirlpool h = QuoteUpdate.address (?us ! 1) \<and>
                  Hop.amountIn h =
                    (if SwapQuoteParam.amountSpecifiedIsInput (?qps ! 1)
                     then SwapQuoteParam.tokenAmount (?qps ! 1)
                     else otherAmountThreshold q) \<and>
                  Hop.amountOut h =
                    (if SwapQuoteParam.amountSpecifiedIsInput (?qps ! 1)
                     then otherAmountThreshold q
                     else SwapQuoteParam.tokenAmount (?qps ! 1))))"
    by (rule mp)
  then have "\<exists>uq. entryAt quoteMap' 100 1 = Some uq \<and>
          (\<forall>errorCode. Inl (Some TickArraySequenceInvalid) = (Inl errorCode :: SwapErrorCode option + SwapQuote) \<longrightarrow>
             jsGet (InternalRouteQuote.calculatedHops uq) 0 = Some (Failure errorCode))"
    unfolding q1 u1 by blast
  then obtain uq1 where second:
      "entryAt quoteMap' 100 1 = Some uq1"
      "jsGet (InternalRouteQuote.calculatedHops uq1) 0 = Some (Failure (Some TickArraySequenceInvalid))"
    by blast
  have concl: "\<exists>quoteMap' uq0 uq1 h.
      updateQuoteMap (exEngine [''p4/a'']) ?us ?qps ?qm = Inr quoteMap' \<and>
      entryAt quoteMap' 100 0 = Some uq0 \<and>
      jsGet (InternalRouteQuote.calculatedHops uq0) 0 = Some (Success h) \<and>
      Hop.quote h = \<lparr> otherAmountThreshold = 1000 \<rparr> \<and>
      Hop.amountIn h = 1000 \<and> Hop.amountOut h = 1000 \<and>
      entryAt quoteMap' 100 1 = Some uq1 \<and>
      jsGet (InternalRouteQuote.calculatedHops uq1) 0 =
        Some (Failure (Some TickArraySequenceInvalid))"
    using run first second by (intro exI conjI)
  from b0 b1 a2 i0 i1 a4 concl show ?thesis by (intro conjI)
qed

end
